(* ===== verification/Prelude.thy ===== *)
theory Prelude
  imports Main "HOL-Library.Word" "HOL-Library.Multiset" "HOL-Library.Code_Target_Numeral"
begin

unbundle bit_operations_syntax

text \<open>
  Shared vocabulary of the development. Python strings are sequences of Unicode
  code points, so a Python \<open>str\<close> is a list of natural numbers (\<open>ustr\<close>), not an
  Isabelle \<open>string\<close> (whose characters are bytes). Python \<open>bytes\<close> are lists of
  \<open>8 word\<close>. A raised exception is the left value of a sum type; \<open>bind_exc\<close>
  propagates it, as an uncaught exception propagates to the caller. The
  collections declared here gather the rules the component theories add for
  exception propagation and for the codecs.
\<close>

named_theorems exc_simps "rules for propagating Python exceptions through bind_exc"
named_theorems codec_simps "evaluation rules of the JSON and UTF-8 codecs"

type_synonym codepoint = nat
type_synonym ustr = "codepoint list"
type_synonym byte = "8 word"
type_synonym bytes = "byte list"

text \<open>ASCII code points the codecs test for, by name.\<close>

abbreviation (input) QUOTE :: codepoint where "QUOTE \<equiv> 34"
abbreviation (input) BACKSLASH :: codepoint where "BACKSLASH \<equiv> 92"
abbreviation (input) LBRACE :: codepoint where "LBRACE \<equiv> 123"
abbreviation (input) RBRACE :: codepoint where "RBRACE \<equiv> 125"
abbreviation (input) LBRACKET :: codepoint where "LBRACKET \<equiv> 91"
abbreviation (input) RBRACKET :: codepoint where "RBRACKET \<equiv> 93"
abbreviation (input) COLON :: codepoint where "COLON \<equiv> 58"
abbreviation (input) COMMA :: codepoint where "COMMA \<equiv> 44"
abbreviation (input) MINUS :: codepoint where "MINUS \<equiv> 45"

definition ustr :: "string \<Rightarrow> ustr" where
  "ustr s = map of_char s"

definition valid_ustr :: "ustr \<Rightarrow> bool" where
  "valid_ustr s \<longleftrightarrow> list_all (\<lambda>c. c < 0x110000) s"

definition is_ascii :: "ustr \<Rightarrow> bool" where
  "is_ascii s \<longleftrightarrow> list_all (\<lambda>c. c < 128) s"

definition bind_exc :: "'e + 'a \<Rightarrow> ('a \<Rightarrow> 'e + 'b) \<Rightarrow> 'e + 'b" where
  "bind_exc r f = (case r of Inl e \<Rightarrow> Inl e | Inr a \<Rightarrow> f a)"

subsection \<open>Exception propagation\<close>

lemma bind_exc_Inl [simp, exc_simps]: "bind_exc (Inl e) f = Inl e"
  by (simp add: bind_exc_def)

lemma bind_exc_Inr [simp, exc_simps]: "bind_exc (Inr a) f = f a"
  by (simp add: bind_exc_def)

lemma bind_exc_eq_Inr [exc_simps]:
  "bind_exc r f = Inr b \<longleftrightarrow> (\<exists>a. r = Inr a \<and> f a = Inr b)"
  by (cases r) auto

lemma bind_exc_return [exc_simps]: "bind_exc r Inr = r"
  by (cases r) simp_all

lemma bind_exc_assoc [exc_simps]: "bind_exc (bind_exc r f) g = bind_exc r (\<lambda>a. bind_exc (f a) g)"
  by (cases r) simp_all

lemma bind_exc_eq_Inl [exc_simps]:
  "bind_exc r f = Inl e \<longleftrightarrow> r = Inl e \<or> (\<exists>a. r = Inr a \<and> f a = Inl e)"
  by (cases r) auto

text \<open>The congruence rule lets recursive definitions recurse under \<open>bind_exc\<close>.\<close>

lemma bind_exc_cong [fundef_cong]:
  "r = r' \<Longrightarrow> (\<And>a. r' = Inr a \<Longrightarrow> f a = g a) \<Longrightarrow> bind_exc r f = bind_exc r' g"
  by (cases r) auto

subsection \<open>Strings and code points\<close>

lemma ustr_Nil [simp]: "ustr [] = []"
  by (simp add: ustr_def)

lemma ustr_Cons [simp]: "ustr (c # s) = of_char c # ustr s"
  by (simp add: ustr_def)

lemma ustr_append [simp]: "ustr (s @ t) = ustr s @ ustr t"
  by (simp add: ustr_def)

lemma length_ustr [simp]: "length (ustr s) = length s"
  by (simp add: ustr_def)

lemma is_ascii_append [simp]: "is_ascii (s @ t) \<longleftrightarrow> is_ascii s \<and> is_ascii t"
  by (simp add: is_ascii_def)

lemma is_ascii_Cons [simp]: "is_ascii (c # s) \<longleftrightarrow> c < 128 \<and> is_ascii s"
  by (simp add: is_ascii_def)

lemma is_ascii_Nil [simp]: "is_ascii []"
  by (simp add: is_ascii_def)

lemma is_ascii_concat [simp]: "is_ascii (concat xs) \<longleftrightarrow> (\<forall>x\<in>set xs. is_ascii x)"
  by (induction xs) auto

lemma is_ascii_replicate [simp]: "is_ascii (replicate n c) \<longleftrightarrow> n = 0 \<or> c < 128"
  by (induction n) auto

lemma valid_ustr_append [simp]: "valid_ustr (s @ t) \<longleftrightarrow> valid_ustr s \<and> valid_ustr t"
  by (simp add: valid_ustr_def)

lemma valid_ustr_Cons [simp]: "valid_ustr (c # s) \<longleftrightarrow> c < 0x110000 \<and> valid_ustr s"
  by (simp add: valid_ustr_def)

lemma valid_ustr_Nil [simp]: "valid_ustr []"
  by (simp add: valid_ustr_def)

lemma ascii_valid_ustr: "is_ascii s \<Longrightarrow> valid_ustr s"
  by (induction s) auto

lemma list_all_take_drop: "list_all P xs \<Longrightarrow> list_all P (take n xs) \<and> list_all P (drop n xs)"
  by (auto simp: list_all_iff dest: in_set_takeD in_set_dropD)

text \<open>A computation on a state that either raises, keeping the state, or returns a value with a new state.\<close>

lemma case_sum_state_eq_Inr [exc_simps]:
  "((case x of Inl e \<Rightarrow> (Inl e, s) | Inr s' \<Rightarrow> (Inr v, s')) = (Inr r, s'')) \<longleftrightarrow> x = Inr s'' \<and> r = v"
  by (cases x) auto

lemma case_sum_state_eq_Inl [exc_simps]:
  "((case x of Inl e \<Rightarrow> (Inl e, s) | Inr s' \<Rightarrow> (Inr v, s')) = (Inl e', s'')) \<longleftrightarrow> x = Inl e' \<and> s'' = s"
  by (cases x) auto


subsection \<open>Multisets\<close>

text \<open>Taking back one element of a sub-multiset \<open>P\<close> of \<open>M\<close> adds it to \<open>M - P\<close>.\<close>

lemma mset_diff_remove_pending:
  "x \<in># P \<Longrightarrow> P \<subseteq># M \<Longrightarrow> M - (P - {#x#}) = M - P + {#x#}"
  by (auto simp: multiset_eq_iff subseteq_mset_def) (metis Suc_diff_le)

lemma subseteq_add_mset_right: "A \<subseteq># B \<Longrightarrow> A \<subseteq># add_mset x B"
  by (simp add: subseteq_mset_def le_SucI)


subsection \<open>Lists and numerals\<close>

lemma replicate_numeral: "replicate (numeral k) x = x # replicate (pred_numeral k) x"
  by (simp add: numeral_eq_Suc)

lemma div_16_16: "(n::nat) div 16 div 16 = n div 256" "(n::nat) div 256 div 16 = n div 4096"
  by (simp_all add: div_mult2_eq [symmetric])

subsection \<open>Bit operations on natural numbers\<close>

text \<open>
  Python's \<open>|\<close>, \<open>&\<close> and \<open>>>\<close> on non-negative \<open>int\<close>s: an \<open>OR\<close> of disjoint
  bit ranges is a sum, a mask is a remainder.
\<close>

lemma push_bit_or_low: "(x::nat) < 2 ^ k \<Longrightarrow> push_bit k c OR x = push_bit k c + x"
proof -
  assume "x < 2 ^ k"
  then have x: "take_bit k x = x" by (simp add: take_bit_nat_eq_self)
  have "push_bit k c AND take_bit k x = 0" by (simp add: bit_eq_iff bit_simps)
  then show ?thesis using disjunctive_add_eq_or [of "push_bit k c" x] x by simp
qed

lemma and_1023: "(n::nat) AND 0x3ff = n mod 1024"
proof -
  have "n AND mask 10 = n mod 2 ^ 10" by (simp only: take_bit_eq_mask [symmetric] take_bit_nat_def)
  moreover have "(mask 10 :: nat) = 0x3ff" by (simp add: mask_eq_exp_minus_1)
  ultimately show ?thesis by simp
qed

lemma or_disjoint_nat: "(x::nat) < 2 ^ k \<Longrightarrow> K mod 2 ^ k = 0 \<Longrightarrow> K OR x = K + x"
proof -
  assume x: "x < 2 ^ k" and K: "K mod 2 ^ k = 0"
  have "K = push_bit k (K div 2 ^ k)" using div_mult_mod_eq [of K "2 ^ k"] K by (simp add: push_bit_eq_mult)
  then show ?thesis using push_bit_or_low [OF x, of "K div 2 ^ k"] by simp
qed


lemma and_mask_nat: "(n::nat) AND mask k = n mod 2 ^ k"
  by (simp only: take_bit_eq_mask [symmetric] take_bit_nat_def)

lemma and_low_nat: "(r::nat) < 2 ^ k \<Longrightarrow> K mod 2 ^ k = 0 \<Longrightarrow> (K + r) AND mask k = r"
  by (simp add: and_mask_nat) (metis mod_add_left_eq add_0 mod_less)

lemma and_high_nat:
  assumes "(r::nat) < 2 ^ k"
  shows "(push_bit k q + r) AND push_bit k m = push_bit k (q AND m)"
proof -
  have r: "take_bit k r = r" using assms by (simp add: take_bit_nat_eq_self)
  have "push_bit k q + r = push_bit k q OR take_bit k r" using push_bit_or_low [OF assms] r by simp
  then show ?thesis by (auto simp: bit_eq_iff bit_simps)
qed

lemma add_mod_low: "(r::nat) < m \<Longrightarrow> K mod m = 0 \<Longrightarrow> (K + r) mod m = r"
  by (metis mod_add_left_eq add_0 mod_less)

end
