(* ===== verification/PyObject.thy ===== *)
theory PyObject
  imports Prelude
begin

text \<open>
  The Python objects the handler touches. The Lambda runtime hands the handler the
  invocation event decoded by \<open>json.loads\<close>, and the handler decodes the message
  body with \<open>json.loads\<close> again, so every object in play is one that JSON decoding
  produces: \<open>None\<close>, \<open>bool\<close>, \<open>int\<close> (unbounded), \<open>float\<close>, \<open>str\<close>, \<open>list\<close> and
  \<open>dict\<close> with \<open>str\<close> keys. A dict is an association list in insertion order, as
  CPython dicts are ordered; \<open>dict_set\<close> is \<open>d[k] = v\<close>, which keeps the position
  of an existing key and appends a new one. The exceptions the handler can raise
  are the constructors of \<open>py_exc\<close>; \<open>py_getitem\<close> is the subscript \<open>v[k]\<close> with a
  \<open>str\<close> key and \<open>py_dict_get\<close> the method call \<open>v.get(k, default)\<close>.
\<close>

text \<open>
  A float is kept as the exact decimal it denotes (sign, coefficient, decimal
  exponent), normalised so that the coefficient has no trailing zero digit, or as
  an infinity or NaN. This is exact for every float a JSON literal with at most 15
  significant digits in the normal range of binary64 produces; rounding to binary64
  beyond that is not modelled.
\<close>

datatype pyfloat = FFinite bool nat int | FInf bool | FNaN

datatype pyval =
    PNone
  | PBool bool
  | PInt int
  | PFloat pyfloat
  | PStr ustr
  | PList "pyval list"
  | PDict "(ustr \<times> pyval) list"

text \<open>The messages of \<open>json.JSONDecodeError\<close>, as CPython 3.12's \<open>_json\<close> module raises them.\<close>

datatype json_msg =
    Expecting_value
  | Expecting_property_name
  | Expecting_colon
  | Expecting_comma
  | Unterminated_string
  | Invalid_control_character
  | Invalid_escape
  | Invalid_uXXXX_escape
  | Extra_data
  | Unexpected_BOM

datatype type_error =
    Not_subscriptable string
  | List_indices_not_str
  | Str_indices_not_str
  | Json_input_type string

text \<open>Error codes of the API Gateway management API's \<open>PostToConnection\<close>, raised by boto3 as \<open>ClientError\<close>.\<close>

datatype api_error = GoneException | ForbiddenException | PayloadTooLargeException

text \<open>
  \<open>ValueError\<close> of \<open>int\<close> from a string of more than
  \<open>sys.get_int_max_str_digits()\<close> digits ("Exceeds the limit (4300 digits) for
  integer string conversion: value has \<open>n\<close> digits").
\<close>

datatype value_error = Int_max_str_digits nat

datatype py_exc =
    KeyError ustr
  | TypeError type_error
  | AttributeError string ustr
  | JSONDecodeError json_msg nat
  | UnicodeEncodeError nat
  | ParamValidationError string
  | ClientError api_error
  | ValueError value_error

fun py_type_name :: "pyval \<Rightarrow> string" where
  "py_type_name PNone = ''NoneType''"
| "py_type_name (PBool _) = ''bool''"
| "py_type_name (PInt _) = ''int''"
| "py_type_name (PFloat _) = ''float''"
| "py_type_name (PStr _) = ''str''"
| "py_type_name (PList _) = ''list''"
| "py_type_name (PDict _) = ''dict''"

subsection \<open>Dictionaries\<close>

fun dict_set :: "(ustr \<times> pyval) list \<Rightarrow> ustr \<Rightarrow> pyval \<Rightarrow> (ustr \<times> pyval) list" where
  "dict_set [] k v = [(k, v)]"
| "dict_set ((k', v') # d) k v = (if k' = k then (k, v) # d else (k', v') # dict_set d k v)"

fun py_getitem :: "pyval \<Rightarrow> ustr \<Rightarrow> py_exc + pyval" where
  "py_getitem (PDict d) k = (case map_of d k of None \<Rightarrow> Inl (KeyError k) | Some v \<Rightarrow> Inr v)"
| "py_getitem (PList _) k = Inl (TypeError List_indices_not_str)"
| "py_getitem (PStr _) k = Inl (TypeError Str_indices_not_str)"
| "py_getitem v k = Inl (TypeError (Not_subscriptable (py_type_name v)))"

fun py_dict_get :: "pyval \<Rightarrow> ustr \<Rightarrow> pyval \<Rightarrow> py_exc + pyval" where
  "py_dict_get (PDict d) k dflt = Inr (case map_of d k of None \<Rightarrow> dflt | Some v \<Rightarrow> v)"
| "py_dict_get v k dflt = Inl (AttributeError (py_type_name v) (ustr ''get''))"

subsection \<open>Well-formed objects\<close>

text \<open>
  What CPython keeps true of every object above: a \<open>str\<close> holds code points
  below \<open>0x110000\<close>, a dict's keys are distinct, a finite float is normalised.
\<close>

fun float_wf :: "pyfloat \<Rightarrow> bool" where
  "float_wf (FFinite neg c e) \<longleftrightarrow> (if c = 0 then e = 0 else c mod 10 \<noteq> 0)"
| "float_wf _ \<longleftrightarrow> True"

fun py_wf :: "pyval \<Rightarrow> bool" where
  "py_wf (PStr s) \<longleftrightarrow> valid_ustr s"
| "py_wf (PFloat f) \<longleftrightarrow> float_wf f"
| "py_wf (PList xs) \<longleftrightarrow> (\<forall>x\<in>set xs. py_wf x)"
| "py_wf (PDict d) \<longleftrightarrow> distinct (map fst d) \<and> (\<forall>kv\<in>set d. valid_ustr (fst kv) \<and> py_wf (snd kv))"
| "py_wf _ \<longleftrightarrow> True"

subsection \<open>Lemmas\<close>

lemma map_of_dict_set [simp]: "map_of (dict_set d k v) = (map_of d)(k \<mapsto> v)"
  by (induction d) (auto simp: fun_eq_iff)

lemma dom_dict_set [simp]: "fst ` set (dict_set d k v) = insert k (fst ` set d)"
  by (simp flip: dom_map_of_conv_image_fst)

lemma distinct_dict_set [simp]: "distinct (map fst d) \<Longrightarrow> distinct (map fst (dict_set d k v))"
  by (induction d) (auto simp: image_iff)

lemma dict_set_fresh: "k \<notin> fst ` set d \<Longrightarrow> dict_set d k v = d @ [(k, v)]"
  by (induction d) auto

lemma set_dict_set: "set (dict_set d k v) \<subseteq> insert (k, v) (set d)"
  by (induction d) (auto split: if_splits)

lemma py_wf_dict_set:
  assumes "py_wf (PDict d)" and "valid_ustr k" and "py_wf v"
  shows "py_wf (PDict (dict_set d k v))"
  using assms set_dict_set [of d k v] by auto

lemma py_getitem_Inr: "py_getitem v k = Inr r \<longleftrightarrow> (\<exists>d. v = PDict d \<and> map_of d k = Some r)"
  by (cases v) (auto split: option.splits)

lemma py_dict_get_Inr:
  "py_dict_get v k dflt = Inr r \<longleftrightarrow>
     (\<exists>d. v = PDict d \<and> r = (case map_of d k of None \<Rightarrow> dflt | Some x \<Rightarrow> x))"
  by (cases v) auto

end
