(* ===== verification/Json_Encode.thy ===== *)
theory Json_Encode
  imports PyObject
begin

text \<open>
  \<open>json.dumps(obj)\<close> with its defaults (\<open>ensure_ascii=True\<close>, \<open>allow_nan=True\<close>,
  separators \<open>', '\<close> and \<open>': '\<close>), as CPython's C encoder computes it
  (\<open>Modules/_json.c\<close>: \<open>encoder_listencode_obj\<close>, \<open>ascii_escape_unicode\<close>,
  \<open>ascii_escape_unichar\<close>; \<open>float.__repr__\<close> for floats). The handler calls it on
  \<open>{"message": message}\<close> at line 17 of \<open>sendmessage.py\<close>. The bit operations of
  the C code on \<open>Py_UCS4\<close> values (\<open>c >> 12 & 0xf\<close>, \<open>c & 0x3FF\<close>) are written
  with \<open>div\<close> and \<open>mod\<close> on code points; code points are below \<open>2^21\<close>, so no
  32-bit operation here overflows and the two readings agree.
\<close>

subsection \<open>Strings\<close>

definition hexdigit :: "nat \<Rightarrow> codepoint" where
  "hexdigit d = (if d < 10 then 48 + d else 87 + d)"

definition hex4 :: "nat \<Rightarrow> ustr" where
  "hex4 v = [hexdigit ((v div 2^12) mod 16), hexdigit ((v div 2^8) mod 16),
             hexdigit ((v div 2^4) mod 16), hexdigit (v mod 16)]"

definition high_surrogate :: "codepoint \<Rightarrow> codepoint" where
  "high_surrogate c = 0xD800 - (0x10000 div 2^10) + c div 2^10"

definition low_surrogate :: "codepoint \<Rightarrow> codepoint" where
  "low_surrogate c = 0xDC00 + c mod 2^10"

text \<open>\<open>S_CHAR(c)\<close>: the characters \<open>ascii_escape_unicode\<close> copies unchanged.\<close>

definition s_char :: "codepoint \<Rightarrow> bool" where
  "s_char c \<longleftrightarrow> 32 \<le> c \<and> c \<le> 126 \<and> c \<noteq> 92 \<and> c \<noteq> 34"

definition ascii_escape_unichar :: "codepoint \<Rightarrow> ustr" where
  "ascii_escape_unichar c = 92 #
     (if c = 92 then [92]
      else if c = 34 then [34]
      else if c = 8 then [98]
      else if c = 12 then [102]
      else if c = 10 then [110]
      else if c = 13 then [114]
      else if c = 9 then [116]
      else if 0x10000 \<le> c then 117 # hex4 (high_surrogate c) @ 92 # 117 # hex4 (low_surrogate c)
      else 117 # hex4 c)"

definition escape_char :: "codepoint \<Rightarrow> ustr" where
  "escape_char c = (if s_char c then [c] else ascii_escape_unichar c)"

definition encode_basestring_ascii :: "ustr \<Rightarrow> ustr" where
  "encode_basestring_ascii s = 34 # concat (map escape_char s) @ [34]"

subsection \<open>Numbers\<close>

fun nat_digits :: "nat \<Rightarrow> ustr" where
  "nat_digits n = (if n < 10 then [48 + n] else nat_digits (n div 10) @ [48 + n mod 10])"

declare nat_digits.simps [simp del]

definition int_repr :: "int \<Rightarrow> ustr" where
  "int_repr i = (if i < 0 then 45 # nat_digits (nat (- i)) else nat_digits (nat i))"

text \<open>
  \<open>float.__repr__\<close> (\<open>PyOS_double_to_string(x, 'r', 0, Py_DTSF_ADD_DOT_0)\<close>) on a
  value whose shortest digit string is the coefficient \<open>c\<close> with decimal point
  position \<open>decpt\<close>: exponent notation when \<open>decpt \<le> -4\<close> or \<open>decpt > 16\<close>, with a
  signed exponent of at least two digits; otherwise positional, with \<open>.0\<close> added
  to an integral value.
\<close>

definition exp_str :: "int \<Rightarrow> ustr" where
  "exp_str x = (if x < 0 then 45 else 43) #
     (let ds = nat_digits (nat \<bar>x\<bar>) in if length ds < 2 then 48 # ds else ds)"

definition repr_finite :: "nat \<Rightarrow> int \<Rightarrow> ustr" where
  "repr_finite c e =
     (let ds = nat_digits c; n = int (length ds); decpt = n + e in
      if decpt \<le> -4 \<or> 16 < decpt
      then hd ds # (if 1 < length ds then 46 # tl ds else []) @ 101 # exp_str (decpt - 1)
      else if decpt \<le> 0 then [48, 46] @ replicate (nat (- decpt)) 48 @ ds
      else if n \<le> decpt then ds @ replicate (nat (decpt - n)) 48 @ [46, 48]
      else take (nat decpt) ds @ 46 # drop (nat decpt) ds)"

text \<open>\<open>floatstr\<close> of the encoder: \<open>NaN\<close> and the infinities are written as JavaScript names.\<close>

fun float_str :: "pyfloat \<Rightarrow> ustr" where
  "float_str FNaN = ustr ''NaN''"
| "float_str (FInf neg) = (if neg then ustr ''-Infinity'' else ustr ''Infinity'')"
| "float_str (FFinite neg c e) = (if neg then [45] else []) @ repr_finite c e"

subsection \<open>Values\<close>

fun sep_join :: "ustr list \<Rightarrow> ustr" where
  "sep_join [] = []"
| "sep_join [x] = x"
| "sep_join (x # y # ys) = x @ [44, 32] @ sep_join (y # ys)"

fun json_encode :: "pyval \<Rightarrow> ustr" where
  "json_encode PNone = ustr ''null''"
| "json_encode (PBool b) = (if b then ustr ''true'' else ustr ''false'')"
| "json_encode (PInt i) = int_repr i"
| "json_encode (PFloat f) = float_str f"
| "json_encode (PStr s) = encode_basestring_ascii s"
| "json_encode (PList xs) = 91 # sep_join (map json_encode xs) @ [93]"
| "json_encode (PDict d) =
     123 # sep_join (map (\<lambda>kv. encode_basestring_ascii (fst kv) @ [58, 32] @ json_encode (snd kv)) d)
     @ [125]"

definition json_dumps :: "pyval \<Rightarrow> ustr" where
  "json_dumps v = json_encode v"

subsection \<open>The output is ASCII\<close>

text \<open>
  With \<open>ensure_ascii=True\<close> every character outside printable ASCII is written
  as an escape, so the JSON text is pure ASCII whatever the value holds
  (\<open>json_encode_ascii\<close>).
\<close>

lemma hexdigit_ascii: "d < 16 \<Longrightarrow> hexdigit d < 128"
  by (simp add: hexdigit_def)

lemma hex4_ascii [simp]: "is_ascii (hex4 v)"
  by (simp add: hex4_def hexdigit_ascii)

lemma escape_char_ascii [simp]: "is_ascii (escape_char c)"
  by (simp add: escape_char_def ascii_escape_unichar_def s_char_def)

lemma encode_basestring_ascii_ascii [simp]: "is_ascii (encode_basestring_ascii s)"
  by (simp add: encode_basestring_ascii_def)

lemma nat_digits_ascii [simp]: "is_ascii (nat_digits n)"
proof (induction n rule: nat_digits.induct)
  case (1 n)
  have "n mod 10 < 10" by simp
  with "1.IH" show ?case
    by (subst nat_digits.simps) (simp del: mod_less_divisor)
qed

lemma int_repr_ascii [simp]: "is_ascii (int_repr i)"
  by (simp add: int_repr_def)

lemma is_ascii_hd_tl: "is_ascii xs \<Longrightarrow> xs \<noteq> [] \<Longrightarrow> hd xs < 128 \<and> is_ascii (tl xs)"
  by (cases xs) auto

lemma is_ascii_take_drop [simp]: "is_ascii xs \<Longrightarrow> is_ascii (take n xs) \<and> is_ascii (drop n xs)"
  by (auto simp: is_ascii_def list_all_iff dest: in_set_takeD in_set_dropD)

lemma nat_digits_nonempty [simp]: "nat_digits n \<noteq> []"
  by (subst nat_digits.simps) simp

lemma float_str_ascii [simp]: "is_ascii (float_str f)"
proof (cases f)
  case (FFinite neg c e)
  have "is_ascii (repr_finite c e)"
    using is_ascii_hd_tl [OF nat_digits_ascii nat_digits_nonempty, of c]
    by (auto simp: repr_finite_def exp_str_def Let_def)
  with FFinite show ?thesis by simp
qed simp_all

lemma sep_join_ascii: "\<forall>x\<in>set xs. is_ascii x \<Longrightarrow> is_ascii (sep_join xs)"
  by (induction xs rule: sep_join.induct) auto

theorem json_encode_ascii: "is_ascii (json_encode v)"
proof (induction v rule: json_encode.induct)
  case (6 xs)
  then show ?case by (auto intro!: sep_join_ascii)
next
  case (7 d)
  then show ?case by (auto intro!: sep_join_ascii)
qed simp_all

end
