(* ===== verification/Json_Decode.thy ===== *)
theory Json_Decode
  imports Json_Encode "HOL-Library.Sublist"
begin

text \<open>
  \<open>json.loads(s)\<close> for a \<open>str\<close> argument, as CPython decodes it with its C scanner
  (\<open>Modules/_json.c\<close>: \<open>scan_once_unicode\<close>, \<open>scanstring_unicode\<close> with
  \<open>strict=True\<close>, \<open>_parse_object_unicode\<close>, \<open>_parse_array_unicode\<close>,
  \<open>_match_number_unicode\<close>) and \<open>JSONDecoder.decode\<close>/\<open>raw_decode\<close> in
  \<open>json/decoder.py\<close>. The handler calls it on the message body at line 13 of
  \<open>sendmessage.py\<close>.

  The C code walks an index through the string; the model walks the remaining
  suffix, so an index is the input's length minus the suffix's length. A scanner
  error carries the suffix length where it was raised (\<open>Stop\<close> is the
  \<open>StopIteration\<close> that \<open>raw_decode\<close> turns into "Expecting value") and
  \<open>json_decode\<close> turns it into the absolute position of \<open>JSONDecodeError\<close>.

  The scanner recurses into nested arrays and objects and loops over their
  members; the mutual recursion carries a fuel argument that every call spends,
  and \<open>Out_of_fuel\<close> is what the model returns when it runs out. \<open>json_decode\<close>
  passes \<open>2 * length s + 1\<close>, and \<open>scan_enough_fuel\<close> shows that this never
  runs out, so the model of \<open>json.loads\<close> is total. CPython's own recursion limit
  on deeply nested input (a \<open>RecursionError\<close>) is not modelled.

  An integer literal is converted by \<open>PyLong_FromString\<close>, which refuses more than
  \<open>int_max_str_digits\<close> digits (the default of \<open>sys.set_int_max_str_digits\<close>,
  4300) with a \<open>ValueError\<close> that \<open>json.loads\<close> does not catch: the scanner
  error \<open>Int_digits n\<close>.
\<close>

datatype scan_err = Stop nat | Decode json_msg nat | Out_of_fuel | Int_digits nat

definition int_max_str_digits :: nat where
  "int_max_str_digits = 4300"

definition is_ws :: "codepoint \<Rightarrow> bool" where
  "is_ws c \<longleftrightarrow> c = 32 \<or> c = 9 \<or> c = 10 \<or> c = 13"

definition skip_ws :: "ustr \<Rightarrow> ustr" where
  "skip_ws s = dropWhile is_ws s"

definition is_digit :: "codepoint \<Rightarrow> bool" where
  "is_digit c \<longleftrightarrow> 48 \<le> c \<and> c \<le> 57"

subsection \<open>Strings: \<open>scanstring_unicode\<close>\<close>

definition hexval :: "codepoint \<Rightarrow> nat option" where
  "hexval d = (if 48 \<le> d \<and> d \<le> 57 then Some (d - 48)
               else if 97 \<le> d \<and> d \<le> 102 then Some (d - 87)
               else if 65 \<le> d \<and> d \<le> 70 then Some (d - 55)
               else None)"

text \<open>The C loop \<open>c <<= 4; c |= digit\<close> over four digits.\<close>

fun hex_acc :: "nat \<Rightarrow> ustr \<Rightarrow> nat option" where
  "hex_acc v [] = Some v"
| "hex_acc v (d # ds) = (case hexval d of None \<Rightarrow> None | Some x \<Rightarrow> hex_acc (v * 16 + x) ds)"

definition hex4_val :: "ustr \<Rightarrow> nat option" where
  "hex4_val h = hex_acc 0 (take 4 h)"

definition simple_escape :: "codepoint \<Rightarrow> codepoint option" where
  "simple_escape e =
     (if e = 34 then Some 34 else if e = 92 then Some 92 else if e = 47 then Some 47
      else if e = 98 then Some 8 else if e = 102 then Some 12 else if e = 110 then Some 10
      else if e = 114 then Some 13 else if e = 116 then Some 9 else None)"

definition is_high_surrogate :: "codepoint \<Rightarrow> bool" where
  "is_high_surrogate c \<longleftrightarrow> 0xD800 \<le> c \<and> c \<le> 0xDBFF"

definition is_low_surrogate :: "codepoint \<Rightarrow> bool" where
  "is_low_surrogate c \<longleftrightarrow> 0xDC00 \<le> c \<and> c \<le> 0xDFFF"

definition join_surrogates :: "codepoint \<Rightarrow> codepoint \<Rightarrow> codepoint" where
  "join_surrogates hi lo = (hi mod 2^10) * 2^10 + lo mod 2^10 + 0x10000"

text \<open>
  One escape sequence after a backslash: \<open>e\<close> is the character after the
  backslash and \<open>h\<close> what follows it. After \<open>\u\<close> the C code requires room for
  the four digits and one more character (\<open>end >= len\<close> is an error), and it
  reads a second \<open>\u\<close> escape as the low half of a surrogate pair only when more
  than six characters follow the first escape (\<open>end + 6 < len\<close>); a second
  escape that is no low surrogate is left for the next round of the loop.
  Error positions: "Invalid \escape" names the backslash, "Invalid \uXXXX
  escape" the \<open>u\<close>.
\<close>

definition scan_escape :: "codepoint \<Rightarrow> ustr \<Rightarrow> scan_err + (codepoint \<times> ustr)" where
  "scan_escape e h =
     (if e \<noteq> 117 then
        (case simple_escape e of
           None \<Rightarrow> Inl (Decode Invalid_escape (Suc (Suc (length h))))
         | Some ch \<Rightarrow> Inr (ch, h))
      else if length h \<le> 4 then Inl (Decode Invalid_uXXXX_escape (Suc (length h)))
      else
        (case hex4_val h of
           None \<Rightarrow> Inl (Decode Invalid_uXXXX_escape (Suc (length h)))
         | Some u \<Rightarrow>
             let r = drop 4 h in
             if is_high_surrogate u \<and> 6 < length r \<and> r ! 0 = BACKSLASH \<and> r ! 1 = 117 then
               (case hex4_val (drop 2 r) of
                  None \<Rightarrow> Inl (Decode Invalid_uXXXX_escape (length r - 1))
                | Some u2 \<Rightarrow>
                    if is_low_surrogate u2 then Inr (join_surrogates u u2, drop 6 r) else Inr (u, r))
             else Inr (u, r)))"

lemma scan_escape_shorter: "scan_escape e h = Inr (c, r) \<Longrightarrow> length r \<le> length h"
  by (auto simp: scan_escape_def Let_def split: if_splits option.splits)

text \<open>
  \<open>scanstring b acc s\<close>: \<open>s\<close> is the input after the opening quote, \<open>b\<close> the
  suffix length at the quote (the position "Unterminated string starting at"
  names), \<open>acc\<close> the characters decoded so far. A control character before the
  closing quote is an error (\<open>strict=True\<close>).
\<close>

function scanstring :: "nat \<Rightarrow> ustr \<Rightarrow> ustr \<Rightarrow> scan_err + (ustr \<times> ustr)" where
  "scanstring b acc [] = Inl (Decode Unterminated_string b)"
| "scanstring b acc (c # cs) =
     (if c = QUOTE then Inr (acc, cs)
      else if c = BACKSLASH then
        (case cs of
           [] \<Rightarrow> Inl (Decode Unterminated_string b)
         | e # h \<Rightarrow> bind_exc (scan_escape e h) (\<lambda>(ch, r). scanstring b (acc @ [ch]) r))
      else if c \<le> 0x1f then Inl (Decode Invalid_control_character (Suc (length cs)))
      else scanstring b (acc @ [c]) cs)"
  by pat_completeness auto
termination
  by (relation "measure (\<lambda>(b, acc, s). length s)") (auto dest: scan_escape_shorter)

subsection \<open>Numbers: \<open>_match_number_unicode\<close>\<close>

fun digits_val :: "nat \<Rightarrow> ustr \<Rightarrow> nat" where
  "digits_val v [] = v"
| "digits_val v (d # ds) = digits_val (10 * v + (d - 48)) ds"

text \<open>A finite float normalised: trailing zero digits of the coefficient move into the exponent.\<close>

function norm_dec :: "nat \<Rightarrow> int \<Rightarrow> nat \<times> int" where
  "norm_dec c e = (if c = 0 then (0, 0) else if c mod 10 = 0 then norm_dec (c div 10) (e + 1) else (c, e))"
  by pat_completeness auto
termination
  by (relation "measure fst") auto

declare norm_dec.simps [simp del]

definition make_float :: "bool \<Rightarrow> ustr \<Rightarrow> ustr \<Rightarrow> int \<Rightarrow> pyval" where
  "make_float neg ip fp ex =
     (let (c, e) = norm_dec (digits_val 0 (ip @ fp)) (ex - int (length fp)) in PFloat (FFinite neg c e))"

text \<open>
  The fraction: a dot followed by a digit (the C code tests both before it moves),
  then every further digit.
\<close>

definition frac_part :: "ustr \<Rightarrow> ustr \<times> ustr" where
  "frac_part r =
     (case r of
        d # e # r' \<Rightarrow> if d = 46 \<and> is_digit e then (e # takeWhile is_digit r', dropWhile is_digit r') else ([], r)
      | _ \<Rightarrow> ([], r))"

text \<open>
  The exponent: after \<open>e\<close>/\<open>E\<close> (which needs one more character behind it), an
  optional sign that needs one more character behind it, then digits; without a
  digit the scanner backtracks to the \<open>e\<close>. The result is the signed exponent and
  the rest, or \<open>None\<close> for a backtrack.
\<close>

definition exp_sign :: "ustr \<Rightarrow> bool \<times> ustr" where
  "exp_sign r = (case r of d # r' \<Rightarrow> if (d = 45 \<or> d = 43) \<and> r' \<noteq> [] then (d = 45, r') else (False, r) | [] \<Rightarrow> (False, r))"

definition match_exponent :: "ustr \<Rightarrow> (int \<times> ustr) option" where
  "match_exponent s =
     (case s of
        e # r \<Rightarrow>
          if (e = 101 \<or> e = 69) \<and> r \<noteq> [] then
            (case exp_sign r of (neg, r') \<Rightarrow>
               if takeWhile is_digit r' = [] then None
               else Some ((if neg then - 1 else 1) * int (digits_val 0 (takeWhile is_digit r')),
                          dropWhile is_digit r'))
          else None
      | [] \<Rightarrow> None)"

definition match_number :: "ustr \<Rightarrow> scan_err + (pyval \<times> ustr)" where
  "match_number s =
     (case (case s of c # cs \<Rightarrow> if c = MINUS then (True, cs) else (False, s) | [] \<Rightarrow> (False, s)) of
        (neg, []) \<Rightarrow> Inl (Stop (length s))
      | (neg, c # cs) \<Rightarrow>
          if c = 48 \<or> 49 \<le> c \<and> c \<le> 57 then
            (let ip = (if c = 48 then [c] else c # takeWhile is_digit cs);
                 r1 = (if c = 48 then cs else dropWhile is_digit cs)
             in case frac_part r1 of (fp, r2) \<Rightarrow>
                 (case match_exponent r2 of
                    Some (ex, r3) \<Rightarrow> Inr (make_float neg ip fp ex, r3)
                  | None \<Rightarrow>
                      if fp = [] then
                        (if int_max_str_digits < length ip then Inl (Int_digits (length ip))
                         else Inr (PInt ((if neg then - 1 else 1) * int (digits_val 0 ip)), r2))
                      else Inr (make_float neg ip fp 0, r2)))
          else Inl (Stop (length s)))"

subsection \<open>Values, objects and arrays\<close>

definition expect_char :: "codepoint \<Rightarrow> json_msg \<Rightarrow> ustr \<Rightarrow> scan_err + ustr" where
  "expect_char c m s = (case s of [] \<Rightarrow> Inl (Decode m 0) | d # r \<Rightarrow> if d = c then Inr r else Inl (Decode m (length s)))"

fun scan_once :: "nat \<Rightarrow> ustr \<Rightarrow> scan_err + (pyval \<times> ustr)"
and parse_object :: "nat \<Rightarrow> ustr \<Rightarrow> (ustr \<times> pyval) list \<Rightarrow> scan_err + (pyval \<times> ustr)"
and parse_array :: "nat \<Rightarrow> ustr \<Rightarrow> pyval list \<Rightarrow> scan_err + (pyval \<times> ustr)" where
  "scan_once 0 s = Inl Out_of_fuel"
| "scan_once (Suc n) s =
     (case s of
        [] \<Rightarrow> Inl (Stop 0)
      | c # cs \<Rightarrow>
          if c = QUOTE then bind_exc (scanstring (length s) [] cs) (\<lambda>(str, r). Inr (PStr str, r))
          else if c = LBRACE then
            (let r = skip_ws cs in
             if r \<noteq> [] \<and> hd r = RBRACE then Inr (PDict [], tl r) else parse_object n r [])
          else if c = LBRACKET then
            (let r = skip_ws cs in
             if r \<noteq> [] \<and> hd r = RBRACKET then Inr (PList [], tl r) else parse_array n r [])
          else if take 4 s = ustr ''null'' then Inr (PNone, drop 4 s)
          else if take 4 s = ustr ''true'' then Inr (PBool True, drop 4 s)
          else if take 5 s = ustr ''false'' then Inr (PBool False, drop 5 s)
          else if take 3 s = ustr ''NaN'' then Inr (PFloat FNaN, drop 3 s)
          else if take 8 s = ustr ''Infinity'' then Inr (PFloat (FInf False), drop 8 s)
          else if take 9 s = ustr ''-Infinity'' then Inr (PFloat (FInf True), drop 9 s)
          else match_number s)"
| "parse_object 0 s d = Inl Out_of_fuel"
| "parse_object (Suc n) s d =
     bind_exc (expect_char QUOTE Expecting_property_name s) (\<lambda>s1.
     bind_exc (scanstring (length s) [] s1) (\<lambda>(k, r).
     bind_exc (expect_char COLON Expecting_colon (skip_ws r)) (\<lambda>r1.
     bind_exc (scan_once n (skip_ws r1)) (\<lambda>(v, r2).
       let d' = dict_set d k v; r3 = skip_ws r2 in
       if r3 \<noteq> [] \<and> hd r3 = RBRACE then Inr (PDict d', tl r3)
       else bind_exc (expect_char COMMA Expecting_comma r3) (\<lambda>r4. parse_object n (skip_ws r4) d')))))"
| "parse_array 0 s xs = Inl Out_of_fuel"
| "parse_array (Suc n) s xs =
     bind_exc (scan_once n s) (\<lambda>(v, r).
       let r1 = skip_ws r in
       if r1 \<noteq> [] \<and> hd r1 = RBRACKET then Inr (PList (xs @ [v]), tl r1)
       else bind_exc (expect_char COMMA Expecting_comma r1) (\<lambda>r2. parse_array n (skip_ws r2) (xs @ [v])))"

subsection \<open>\<open>json.loads\<close>\<close>

fun scan_exc :: "nat \<Rightarrow> scan_err \<Rightarrow> py_exc" where
  "scan_exc L (Stop r) = JSONDecodeError Expecting_value (L - r)"
| "scan_exc L (Decode m r) = JSONDecodeError m (L - r)"
| "scan_exc L Out_of_fuel = JSONDecodeError Expecting_value L"
| "scan_exc L (Int_digits n) = ValueError (Int_max_str_digits n)"

definition json_decode :: "ustr \<Rightarrow> py_exc + pyval" where
  "json_decode s =
     (case scan_once (2 * length s + 1) (skip_ws s) of
        Inl e \<Rightarrow> Inl (scan_exc (length s) e)
      | Inr (v, r) \<Rightarrow>
          if skip_ws r = [] then Inr v
          else Inl (JSONDecodeError Extra_data (length s - length (skip_ws r))))"

fun json_loads :: "pyval \<Rightarrow> py_exc + pyval" where
  "json_loads (PStr s) =
     (if s \<noteq> [] \<and> hd s = 0xFEFF then Inl (JSONDecodeError Unexpected_BOM 0) else json_decode s)"
| "json_loads v = Inl (TypeError (Json_input_type (py_type_name v)))"

subsection \<open>The scanner consumes input and never runs out of fuel\<close>

text \<open>
  Every successful call returns a strictly shorter suffix (\<open>scan_shorter\<close>);
  hence a nested call or a further round of a member loop starts on less input,
  and \<open>2 * length s + 1\<close> units of fuel suffice for a value at \<open>s\<close>
  (\<open>scan_enough_fuel\<close>): an object or array costs one unit to open and one per
  member, and each member starts at least one character further on.
\<close>

lemma length_skip_ws [simp]: "length (skip_ws s) \<le> length s"
  by (simp add: skip_ws_def length_dropWhile_le)

lemma expect_char_Inr: "expect_char c m s = Inr r \<longleftrightarrow> s = c # r"
  by (auto simp: expect_char_def split: list.splits)

text \<open>A run of ordinary characters is copied as it is up to the closing quote.\<close>

lemma scanstring_plain:
  "list_all (\<lambda>c. c \<noteq> QUOTE \<and> c \<noteq> BACKSLASH \<and> 0x1f < c) xs \<Longrightarrow>
     scanstring b acc (xs @ QUOTE # r) = Inr (acc @ xs, r)"
  by (induction xs arbitrary: acc) auto

lemma scanstring_shorter: "scanstring b acc s = Inr (str, r) \<Longrightarrow> length r < length s"
proof (induction b acc s rule: scanstring.induct)
  case (1 b acc)
  then show ?case by simp
next
  case (2 b acc c cs)
  then show ?case
    by (fastforce simp: bind_exc_eq_Inr dest: scan_escape_shorter split: if_splits list.splits)
qed

lemma frac_part_shorter: "frac_part r = (fp, r') \<Longrightarrow> length r' \<le> length r"
  by (auto simp: frac_part_def length_dropWhile_le le_SucI split: list.splits if_splits)

lemma exp_sign_shorter: "exp_sign r = (neg, r') \<Longrightarrow> length r' \<le> length r"
  by (auto simp: exp_sign_def split: list.splits if_splits)

lemma match_exponent_shorter: "match_exponent s = Some (ex, r) \<Longrightarrow> length r < length s"
  by (auto simp: match_exponent_def less_Suc_eq_le
           intro: order.trans [OF length_dropWhile_le] dest!: exp_sign_shorter
           split: list.splits if_splits prod.splits)

lemma match_number_shorter: "match_number s = Inr (v, r) \<Longrightarrow> length r < length s"
  unfolding match_number_def
  by (auto simp: Let_def less_Suc_eq_le
      dest!: frac_part_shorter match_exponent_shorter order.trans [OF _ length_dropWhile_le]
      split: list.splits if_splits prod.splits option.splits)

lemma length_tl_skip_ws: "length (skip_ws cs) - Suc 0 < Suc (length cs)"
  using length_skip_ws [of cs] by linarith

text \<open>
  One step of each of the three functions, read backwards: how a result came about.
  Every property of the scanner's results below is an induction on the fuel over
  these rules.
\<close>

lemma parse_array_SucE:
  assumes "parse_array (Suc n) s xs = Inr (v, r)"
  obtains (last) v0 r0 where "scan_once n s = Inr (v0, r0)" "skip_ws r0 \<noteq> []"
      "v = PList (xs @ [v0])" "r = tl (skip_ws r0)"
    | (more) v0 r0 r1 where "scan_once n s = Inr (v0, r0)"
      "expect_char COMMA Expecting_comma (skip_ws r0) = Inr r1" "parse_array n (skip_ws r1) (xs @ [v0]) = Inr (v, r)"
  using assms by (auto simp: bind_exc_eq_Inr Let_def split: prod.splits if_splits)

lemma parse_object_SucE:
  assumes "parse_object (Suc n) s d = Inr (v, r)"
  obtains (last) s1 k r0 r1 v0 r2 where "expect_char QUOTE Expecting_property_name s = Inr s1"
      "scanstring (length s) [] s1 = Inr (k, r0)" "expect_char COLON Expecting_colon (skip_ws r0) = Inr r1"
      "scan_once n (skip_ws r1) = Inr (v0, r2)" "skip_ws r2 \<noteq> []"
      "v = PDict (dict_set d k v0)" "r = tl (skip_ws r2)"
    | (more) s1 k r0 r1 v0 r2 r3 where "expect_char QUOTE Expecting_property_name s = Inr s1"
      "scanstring (length s) [] s1 = Inr (k, r0)" "expect_char COLON Expecting_colon (skip_ws r0) = Inr r1"
      "scan_once n (skip_ws r1) = Inr (v0, r2)" "expect_char COMMA Expecting_comma (skip_ws r2) = Inr r3"
      "parse_object n (skip_ws r3) (dict_set d k v0) = Inr (v, r)"
  using assms by (auto simp: bind_exc_eq_Inr Let_def split: prod.splits if_splits)

lemma scan_once_SucE:
  assumes "scan_once (Suc n) s = Inr (v, r)"
  obtains (str) cs str where "s = QUOTE # cs" "scanstring (length s) [] cs = Inr (str, r)" "v = PStr str"
    | (empty) c cs where "s = c # cs" "skip_ws cs \<noteq> []" "r = tl (skip_ws cs)" "v = PDict [] \<or> v = PList []"
    | (obj) cs where "s = LBRACE # cs" "parse_object n (skip_ws cs) [] = Inr (v, r)"
    | (arr) cs where "s = LBRACKET # cs" "parse_array n (skip_ws cs) [] = Inr (v, r)"
    | (lit) c cs where "s = c # cs" "suffix r cs"
      "v \<in> {PNone, PBool True, PBool False, PFloat FNaN, PFloat (FInf False), PFloat (FInf True)}"
    | (num) "match_number s = Inr (v, r)"
  using assms by (auto simp: bind_exc_eq_Inr Let_def suffix_drop split: prod.splits if_splits list.splits)

lemma suffix_skip_ws: "suffix (skip_ws s) s"
  by (simp add: skip_ws_def dropWhile_eq_drop suffix_drop)

lemma suffix_scan_escape: "scan_escape e h = Inr (c, r) \<Longrightarrow> suffix r h"
  by (auto simp: scan_escape_def Let_def suffix_drop split: if_splits option.splits
      intro: suffix_order.trans [OF suffix_drop suffix_drop])

lemma suffix_scanstring: "scanstring b acc s = Inr (str, r) \<Longrightarrow> suffix r s"
proof (induction b acc s rule: scanstring.induct)
  case (2 b acc c cs)
  then show ?case
    by (auto simp: bind_exc_eq_Inr split: if_splits list.splits intro: suffix_ConsI)
      (meson suffix_ConsI suffix_order.trans suffix_scan_escape)
qed simp

lemma suffix_dropWhile: "suffix (dropWhile P s) s"
  by (simp add: dropWhile_eq_drop suffix_drop)

lemma suffix_frac_part: "frac_part s = (fp, r) \<Longrightarrow> suffix r s"
  by (auto simp: frac_part_def split: list.splits if_splits
      intro: suffix_ConsI suffix_order.trans [OF suffix_dropWhile])

lemma suffix_match_exponent: "match_exponent s = Some (x, r) \<Longrightarrow> suffix r s"
  by (auto simp: match_exponent_def exp_sign_def split: list.splits if_splits prod.splits
      intro: suffix_ConsI suffix_order.trans [OF suffix_dropWhile])

lemma suffix_match_number: "match_number s = Inr (v, r) \<Longrightarrow> suffix r s"
  by (auto simp: match_number_def Let_def split: list.splits if_splits prod.splits option.splits
      intro: suffix_ConsI suffix_order.trans [OF suffix_dropWhile]
      dest!: suffix_frac_part suffix_match_exponent)
    (meson suffix_ConsI suffix_order.trans suffix_dropWhile)+

lemma strict_suffixI: "suffix r s \<Longrightarrow> length r < length s \<Longrightarrow> strict_suffix r s"
  by (auto simp: strict_suffix_def)

lemma strict_suffix_Cons: "strict_suffix r (c # r)"
  by (simp add: strict_suffix_def suffix_ConsI)

lemma strict_suffix_expect_char: "expect_char c m s = Inr r \<Longrightarrow> strict_suffix r s"
  by (simp add: expect_char_Inr strict_suffix_Cons)

lemma strict_suffix_scanstring: "scanstring b acc s = Inr (str, r) \<Longrightarrow> strict_suffix r s"
  by (rule strict_suffixI [OF suffix_scanstring scanstring_shorter])

lemma strict_suffix_match_number: "match_number s = Inr (v, r) \<Longrightarrow> strict_suffix r s"
  by (rule strict_suffixI [OF suffix_match_number match_number_shorter])

lemma suffix_skip_ws_Cons: "suffix (skip_ws cs) (c # cs)"
  by (rule suffix_ConsI [OF suffix_skip_ws])

lemma strict_suffix_skip_ws_Cons: "strict_suffix (skip_ws cs) (c # cs)"
  using suffix_skip_ws_Cons length_skip_ws [of cs] by (intro strict_suffixI) (auto simp del: length_skip_ws)

lemma strict_suffix_tl_skip_ws: "skip_ws cs \<noteq> [] \<Longrightarrow> strict_suffix (tl (skip_ws cs)) (c # cs)"
  using suffix_order.le_less_trans [OF suffix_tl strict_suffix_skip_ws_Cons] .

text \<open>A rest of the input, after a token that consumed at least one character.\<close>

lemma strict_suffix_after:
  assumes "strict_suffix r (skip_ws r0)" and "strict_suffix r0 s"
  shows "strict_suffix r s"
proof -
  have "strict_suffix r r0" using suffix_order.less_le_trans [OF assms(1) suffix_skip_ws] .
  then show ?thesis using assms(2) by (rule suffix_order.less_trans)
qed

lemma object_member_rest:
  assumes "expect_char QUOTE Expecting_property_name s = Inr s1" and "scanstring (length s) [] s1 = Inr (k, r0)"
    and "expect_char COLON Expecting_colon (skip_ws r0) = Inr r1"
  shows "strict_suffix r1 s"
proof -
  have "strict_suffix r0 s"
    using suffix_order.less_trans [OF strict_suffix_scanstring [OF assms(2)] strict_suffix_expect_char [OF assms(1)]] .
  then show ?thesis using strict_suffix_after [OF strict_suffix_expect_char [OF assms(3)]] by blast
qed

lemma scan_strict_suffix:
  "(\<forall>s v r. scan_once n s = Inr (v, r) \<longrightarrow> strict_suffix r s) \<and>
   (\<forall>s d v r. parse_object n s d = Inr (v, r) \<longrightarrow> strict_suffix r s) \<and>
   (\<forall>s xs v r. parse_array n s xs = Inr (v, r) \<longrightarrow> strict_suffix r s)"
proof (induction n)
  case 0
  then show ?case by simp
next
  case (Suc n)
  then have sc: "scan_once n s = Inr (v, r) \<Longrightarrow> strict_suffix r s"
    and po: "parse_object n s d = Inr (v, r) \<Longrightarrow> strict_suffix r s"
    and pa: "parse_array n s xs = Inr (v, r) \<Longrightarrow> strict_suffix r s" for s d xs v r
    by blast+
  show ?case
  proof (intro conjI allI impI)
    fix s v r assume "scan_once (Suc n) s = Inr (v, r)"
    then show "strict_suffix r s"
    proof (cases rule: scan_once_SucE)
      case (str cs str)
      then show ?thesis
        using suffix_order.less_le_trans [OF strict_suffix_scanstring suffix_ConsI [OF suffix_order.refl]] by blast
    next
      case (obj cs)
      then show ?thesis using suffix_order.less_le_trans [OF po suffix_skip_ws_Cons] by blast
    next
      case (arr cs)
      then show ?thesis using suffix_order.less_le_trans [OF pa suffix_skip_ws_Cons] by blast
    next
      case (lit c cs)
      then show ?thesis using suffix_order.le_less_trans [of r cs s] strict_suffix_Cons [of cs c] by simp
    next
      case (empty c cs)
      then show ?thesis using strict_suffix_tl_skip_ws [of cs c] by simp
    next
      case num
      then show ?thesis by (rule strict_suffix_match_number)
    qed
  next
    fix s d v r assume "parse_object (Suc n) s d = Inr (v, r)"
    then show "strict_suffix r s"
    proof (cases rule: parse_object_SucE)
      case (last s1 k r0 r1 v0 r2)
      have "strict_suffix r2 s"
        using strict_suffix_after [OF sc [OF last(4)] object_member_rest [OF last(1-3)]] .
      moreover have "suffix r r2" using last(7) suffix_order.trans [OF suffix_tl suffix_skip_ws] by blast
      ultimately show ?thesis by (rule suffix_order.le_less_trans [rotated])
    next
      case (more s1 k r0 r1 v0 r2 r3)
      have "strict_suffix r2 s"
        using strict_suffix_after [OF sc [OF more(4)] object_member_rest [OF more(1-3)]] .
      then have "strict_suffix r3 s"
        using strict_suffix_after [OF strict_suffix_expect_char [OF more(5)]] by blast
      then show ?thesis
        using strict_suffix_after [OF po [OF more(6)]] by blast
    qed
  next
    fix s xs v r assume "parse_array (Suc n) s xs = Inr (v, r)"
    then show "strict_suffix r s"
    proof (cases rule: parse_array_SucE)
      case (last v0 r0)
      have "suffix r r0" using last(4) suffix_order.trans [OF suffix_tl suffix_skip_ws] by blast
      then show ?thesis using sc [OF last(1)] by (rule suffix_order.le_less_trans)
    next
      case (more v0 r0 r1)
      have "strict_suffix r1 s"
        using strict_suffix_after [OF strict_suffix_expect_char [OF more(2)] sc [OF more(1)]] .
      then show ?thesis using strict_suffix_after [OF pa [OF more(3)]] by blast
    qed
  qed
qed

lemma scan_shorter:
  "scan_once n s = Inr (v, r) \<Longrightarrow> length r < length s"
  "parse_object n s d = Inr (v, r) \<Longrightarrow> length r < length s"
  "parse_array n s xs = Inr (v, r) \<Longrightarrow> length r < length s"
  using scan_strict_suffix [of n] by (meson suffix_length_less)+

lemma scan_escape_not_fuel: "scan_escape e h \<noteq> Inl Out_of_fuel"
  by (auto simp: scan_escape_def Let_def split: option.splits)
lemma scanstring_not_fuel: "scanstring b acc s \<noteq> Inl Out_of_fuel"
  by (induction b acc s rule: scanstring.induct)
     (auto simp: bind_exc_eq_Inl scan_escape_not_fuel split: list.splits)
lemma match_number_Inl: "match_number s = Inl e \<Longrightarrow> e = Stop (length s) \<or> (\<exists>n. e = Int_digits n)"
  unfolding match_number_def Let_def
  by (auto split: list.split_asm prod.split_asm option.split_asm if_split_asm)

lemma expect_char_not_fuel: "expect_char c m s \<noteq> Inl Out_of_fuel"
  by (auto simp: expect_char_def split: list.splits)

text \<open>
  Where the scanner runs out of fuel: in the value of an object or array, or in a
  later member. Each member consumes at least two characters, so fuel
  \<open>2 * length s + 1\<close> is enough (\<open>scan_fuel_suffices\<close>, by induction on the fuel).
\<close>

lemma scan_once_fuelE:
  assumes "scan_once (Suc n) s = Inl Out_of_fuel"
  obtains (obj) cs where "s = LBRACE # cs" "parse_object n (skip_ws cs) [] = Inl Out_of_fuel"
    | (arr) cs where "s = LBRACKET # cs" "parse_array n (skip_ws cs) [] = Inl Out_of_fuel"
  using assms match_number_Inl [of s Out_of_fuel]
  by (auto simp: bind_exc_eq_Inl scanstring_not_fuel Let_def split: prod.splits if_splits list.splits)

lemma parse_object_fuelE:
  assumes "parse_object (Suc n) s d = Inl Out_of_fuel"
  obtains (val) s1 k r0 r1 where "expect_char QUOTE Expecting_property_name s = Inr s1"
      "scanstring (length s) [] s1 = Inr (k, r0)" "expect_char COLON Expecting_colon (skip_ws r0) = Inr r1"
      "scan_once n (skip_ws r1) = Inl Out_of_fuel"
    | (more) s1 k r0 r1 v0 r2 r3 where "expect_char QUOTE Expecting_property_name s = Inr s1"
      "scanstring (length s) [] s1 = Inr (k, r0)" "expect_char COLON Expecting_colon (skip_ws r0) = Inr r1"
      "scan_once n (skip_ws r1) = Inr (v0, r2)" "expect_char COMMA Expecting_comma (skip_ws r2) = Inr r3"
      "parse_object n (skip_ws r3) (dict_set d k v0) = Inl Out_of_fuel"
  using assms
  by (auto simp: bind_exc_eq_Inl expect_char_not_fuel scanstring_not_fuel Let_def split: prod.splits if_splits)

lemma parse_array_fuelE:
  assumes "parse_array (Suc n) s xs = Inl Out_of_fuel"
  obtains (val) "scan_once n s = Inl Out_of_fuel"
    | (more) v0 r0 r1 where "scan_once n s = Inr (v0, r0)"
      "expect_char COMMA Expecting_comma (skip_ws r0) = Inr r1" "parse_array n (skip_ws r1) (xs @ [v0]) = Inl Out_of_fuel"
  using assms by (auto simp: bind_exc_eq_Inl expect_char_not_fuel Let_def split: prod.splits if_splits)

text \<open>A value and the separator after it take at least two characters.\<close>

lemma member_rest_shorter:
  assumes "scan_once n s = Inr (v, r)" and "expect_char c m (skip_ws r) = Inr r'"
  shows "length (skip_ws r') + 2 \<le> length s"
proof -
  have "length r < length s" using scan_shorter(1) [OF assms(1)] .
  moreover have "length r' < length (skip_ws r)" using assms(2) by (simp add: expect_char_Inr)
  ultimately show ?thesis using length_skip_ws [of r] length_skip_ws [of r'] by linarith
qed

lemma scan_fuel_suffices:
  "(\<forall>s. 2 * length s + 1 \<le> n \<longrightarrow> scan_once n s \<noteq> Inl Out_of_fuel) \<and>
   (\<forall>s d. 2 * length s + 2 \<le> n \<longrightarrow> parse_object n s d \<noteq> Inl Out_of_fuel) \<and>
   (\<forall>s xs. 2 * length s + 2 \<le> n \<longrightarrow> parse_array n s xs \<noteq> Inl Out_of_fuel)"
proof (induction n)
  case (Suc n)
  have so: "scan_once (Suc n) s \<noteq> Inl Out_of_fuel" if "2 * length s + 1 \<le> Suc n" for s
  proof
    assume "scan_once (Suc n) s = Inl Out_of_fuel"
    then show False
    proof (cases rule: scan_once_fuelE)
      case (obj cs)
      then show False using Suc.IH that length_skip_ws [of cs] by fastforce
    next
      case (arr cs)
      then show False using Suc.IH that length_skip_ws [of cs] by fastforce
    qed
  qed
  have po: "parse_object (Suc n) s d \<noteq> Inl Out_of_fuel" if "2 * length s + 2 \<le> Suc n" for s d
  proof
    assume "parse_object (Suc n) s d = Inl Out_of_fuel"
    then show False
    proof (cases rule: parse_object_fuelE)
      case (val s1 k r0 r1)
      have "length r1 < length s" using object_member_rest [OF val(1-3)] by (rule suffix_length_less)
      then show False using Suc.IH that val(4) length_skip_ws [of r1] by fastforce
    next
      case (more s1 k r0 r1 v0 r2 r3)
      have "length r1 < length s" using object_member_rest [OF more(1-3)] by (rule suffix_length_less)
      moreover have "length (skip_ws r3) + 2 \<le> length (skip_ws r1)" using member_rest_shorter [OF more(4,5)] .
      ultimately show False using Suc.IH that more(6) length_skip_ws [of r1] by fastforce
    qed
  qed
  have pa: "parse_array (Suc n) s xs \<noteq> Inl Out_of_fuel" if "2 * length s + 2 \<le> Suc n" for s xs
  proof
    assume "parse_array (Suc n) s xs = Inl Out_of_fuel"
    then show False
    proof (cases rule: parse_array_fuelE)
      case val
      then show False using Suc.IH that by fastforce
    next
      case (more v0 r0 r1)
      have "length (skip_ws r1) + 2 \<le> length s" using member_rest_shorter [OF more(1,2)] .
      then show False using Suc.IH that more(3) by fastforce
    qed
  qed
  show ?case using so po pa by blast
qed simp

lemma scan_enough_fuel:
  "2 * length s + 1 \<le> n \<Longrightarrow> scan_once n s \<noteq> Inl Out_of_fuel"
  "2 * length s + 2 \<le> n \<Longrightarrow> parse_object n s d \<noteq> Inl Out_of_fuel"
  "2 * length s + 2 \<le> n \<Longrightarrow> parse_array n s xs \<noteq> Inl Out_of_fuel"
  using scan_fuel_suffices [of n] by blast+

end
