(* ===== verification/Py_Format.thy ===== *)
theory Py_Format
  imports Json_Encode
begin

text \<open>
  The f-string \<open>f"https://{domain_name}/{stage}"\<close> at line 8 of
  \<open>sendmessage.py\<close> formats each value with \<open>format(v, '')\<close>, which is
  \<open>str(v)\<close>: the string itself for a \<open>str\<close>, and \<open>repr(v)\<close> for every other
  object decoded from JSON. \<open>repr\<close> of a \<open>str\<close> follows CPython's
  \<open>unicode_repr\<close>: single quotes unless the text holds a single quote and no
  double quote; backslash, the quote, tab, newline and carriage return escaped;
  other control characters and DEL as \<open>\xhh\<close>. CPython also escapes the
  non-ASCII characters its Unicode database calls non-printable; the model keeps
  every non-ASCII character as it is, so it is exact on text whose non-ASCII
  characters are printable.
\<close>

definition repr_quote :: "ustr \<Rightarrow> codepoint" where
  "repr_quote s = (if 39 \<in> set s \<and> 34 \<notin> set s then 34 else 39)"

definition repr_char :: "codepoint \<Rightarrow> codepoint \<Rightarrow> ustr" where
  "repr_char q c =
     (if c = q \<or> c = 92 then [92, c]
      else if c = 9 then [92, 116]
      else if c = 10 then [92, 110]
      else if c = 13 then [92, 114]
      else if c < 32 \<or> c = 127 then [92, 120, hexdigit (c div 16), hexdigit (c mod 16)]
      else [c])"

definition py_repr_str :: "ustr \<Rightarrow> ustr" where
  "py_repr_str s = (let q = repr_quote s in q # concat (map (repr_char q) s) @ [q])"

text \<open>\<open>float.__repr__\<close>: as the JSON encoder's, but \<open>nan\<close>, \<open>inf\<close> and \<open>-inf\<close> for the special values.\<close>

fun py_float_repr :: "pyfloat \<Rightarrow> ustr" where
  "py_float_repr FNaN = ustr ''nan''"
| "py_float_repr (FInf neg) = (if neg then ustr ''-inf'' else ustr ''inf'')"
| "py_float_repr (FFinite neg c e) = (if neg then [45] else []) @ repr_finite c e"

fun py_repr :: "pyval \<Rightarrow> ustr" where
  "py_repr PNone = ustr ''None''"
| "py_repr (PBool b) = (if b then ustr ''True'' else ustr ''False'')"
| "py_repr (PInt i) = int_repr i"
| "py_repr (PFloat f) = py_float_repr f"
| "py_repr (PStr s) = py_repr_str s"
| "py_repr (PList xs) = 91 # sep_join (map py_repr xs) @ [93]"
| "py_repr (PDict d) =
     123 # sep_join (map (\<lambda>kv. py_repr_str (fst kv) @ [58, 32] @ py_repr (snd kv)) d) @ [125]"

fun py_str :: "pyval \<Rightarrow> ustr" where
  "py_str (PStr s) = s"
| "py_str v = py_repr v"

end
