(* ===== verification/Utf8.thy ===== *)
theory Utf8
  imports PyObject
begin

unbundle bit_operations_syntax

text \<open>
  \<open>str.encode("utf-8")\<close> with the default \<open>strict\<close> error handler, as CPython
  encodes a string of \<open>Py_UCS4\<close> code units (\<open>Objects/stringlib/codecs.h\<close>,
  \<open>utf8_encoder\<close>): one to four bytes per code point, each byte the \<open>(char)\<close>
  cast of a 32-bit expression, and a \<open>UnicodeEncodeError\<close> ("surrogates not
  allowed") at the first surrogate code point. The handler encodes the JSON text
  of the payload at line 17 of \<open>sendmessage.py\<close>. \<open>utf8_decode\<close> is the strict
  decoder (RFC 3629) that a WebSocket client applies to a text frame; it stands for
  the receiving side of the echo.
\<close>

definition is_surrogate :: "codepoint \<Rightarrow> bool" where
  "is_surrogate c \<longleftrightarrow> 0xD800 \<le> c \<and> c \<le> 0xDFFF"

definition utf8_bytes :: "32 word \<Rightarrow> bytes" where
  "utf8_bytes ch =
     (if ch < 0x80 then [ucast ch]
      else if ch < 0x800 then [ucast (0xC0 OR drop_bit 6 ch), ucast (0x80 OR (ch AND 0x3F))]
      else if ch < 0x10000 then
        [ucast (0xE0 OR drop_bit 12 ch), ucast (0x80 OR (drop_bit 6 ch AND 0x3F)),
         ucast (0x80 OR (ch AND 0x3F))]
      else
        [ucast (0xF0 OR drop_bit 18 ch), ucast (0x80 OR (drop_bit 12 ch AND 0x3F)),
         ucast (0x80 OR (drop_bit 6 ch AND 0x3F)), ucast (0x80 OR (ch AND 0x3F))])"

text \<open>\<open>i\<close> is the index of the first code point of \<open>s\<close> in the whole string, the start of the error.\<close>

fun utf8_encode_from :: "nat \<Rightarrow> ustr \<Rightarrow> py_exc + bytes" where
  "utf8_encode_from i [] = Inr []"
| "utf8_encode_from i (c # cs) =
     (if is_surrogate c then Inl (UnicodeEncodeError i)
      else bind_exc (utf8_encode_from (Suc i) cs) (\<lambda>bs. Inr (utf8_bytes (of_nat c) @ bs)))"

definition py_encode_utf8 :: "ustr \<Rightarrow> py_exc + bytes" where
  "py_encode_utf8 s = utf8_encode_from 0 s"

subsection \<open>The decoder of the receiving client\<close>

definition is_cont :: "byte \<Rightarrow> bool" where
  "is_cont b \<longleftrightarrow> b AND 0xC0 = 0x80"

fun utf8_decode :: "bytes \<Rightarrow> ustr option" where
  "utf8_decode [] = Some []"
| "utf8_decode (b # bs) =
     (if b < 0x80 then map_option (Cons (unat b)) (utf8_decode bs)
      else if 0xC2 \<le> b \<and> b < 0xE0 then
        (case bs of
           b1 # bs1 \<Rightarrow>
             if is_cont b1 then map_option (Cons (unat (b AND 0x1F) * 2^6 + unat (b1 AND 0x3F))) (utf8_decode bs1)
             else None
         | [] \<Rightarrow> None)
      else if 0xE0 \<le> b \<and> b < 0xF0 then
        (case bs of
           b1 # b2 # bs2 \<Rightarrow>
             (let c = unat (b AND 0x0F) * 2^12 + unat (b1 AND 0x3F) * 2^6 + unat (b2 AND 0x3F) in
              if is_cont b1 \<and> is_cont b2 \<and> 0x800 \<le> c \<and> \<not> is_surrogate c
              then map_option (Cons c) (utf8_decode bs2) else None)
         | _ \<Rightarrow> None)
      else if 0xF0 \<le> b \<and> b < 0xF5 then
        (case bs of
           b1 # b2 # b3 # bs3 \<Rightarrow>
             (let c = unat (b AND 0x07) * 2^18 + unat (b1 AND 0x3F) * 2^12 + unat (b2 AND 0x3F) * 2^6
                      + unat (b3 AND 0x3F) in
              if is_cont b1 \<and> is_cont b2 \<and> is_cont b3 \<and> 0x10000 \<le> c \<and> c < 0x110000
              then map_option (Cons c) (utf8_decode bs3) else None)
         | _ \<Rightarrow> None)
      else None)"

text \<open>
  The reference encoding of one scalar value, Table 3-6 of the Unicode Standard:
  one to four bytes, the bits of the code point distributed over a lead byte and
  continuation bytes \<open>10xxxxxx\<close>.
\<close>

definition utf8_ref :: "nat \<Rightarrow> nat list" where
  "utf8_ref c =
     (if c < 0x80 then [c]
      else if c < 0x800 then [0xC0 + c div 64, 0x80 + c mod 64]
      else if c < 0x10000 then [0xE0 + c div 4096, 0x80 + c div 64 mod 64, 0x80 + c mod 64]
      else [0xF0 + c div 262144, 0x80 + c div 4096 mod 64, 0x80 + c div 64 mod 64, 0x80 + c mod 64])"

text \<open>
  The reference encoder: the table's bytes for a string of scalar values, and
  \<open>UnicodeEncodeError\<close> at the index of the first surrogate otherwise.
\<close>

definition utf8_encode_ref :: "ustr \<Rightarrow> py_exc + bytes" where
  "utf8_encode_ref s =
     (if list_all (\<lambda>c. \<not> is_surrogate c) s then Inr (concat (map (\<lambda>c. map of_nat (utf8_ref c)) s))
      else Inl (UnicodeEncodeError (length (takeWhile (\<lambda>c. \<not> is_surrogate c) s))))"

subsection \<open>ASCII text\<close>

lemma ascii_word_less: "c < 128 \<Longrightarrow> (word_of_nat c :: 32 word) < 0x80"
  by (simp add: word_less_nat_alt unat_of_nat)

lemma ucast_word_of_nat_small: "c < 256 \<Longrightarrow> (ucast (word_of_nat c :: 32 word) :: 8 word) = word_of_nat c"
  by (simp add: unsigned_of_nat take_bit_nat_eq_self)

lemma utf8_bytes_ascii [simp]: "c < 128 \<Longrightarrow> utf8_bytes (of_nat c) = [of_nat c]"
  by (simp add: utf8_bytes_def ascii_word_less ucast_word_of_nat_small)

lemma utf8_encode_from_ascii: "is_ascii s \<Longrightarrow> utf8_encode_from i s = Inr (map of_nat s)"
  by (induction s arbitrary: i) (auto simp: is_surrogate_def)

lemma utf8_encode_from_append:
  "utf8_encode_from i (s @ t) =
     bind_exc (utf8_encode_from i s) (\<lambda>a. bind_exc (utf8_encode_from (i + length s) t) (\<lambda>b. Inr (a @ b)))"
  by (induction s arbitrary: i) (simp_all add: bind_exc_assoc bind_exc_return)

lemma utf8_decode_ascii: "is_ascii s \<Longrightarrow> utf8_decode (map of_nat s) = Some s"
proof (induction s)
  case Nil
  then show ?case by simp
next
  case (Cons c s)
  then have "c < 128" by simp
  then have "(word_of_nat c :: 8 word) < 0x80" and "unat (word_of_nat c :: 8 word) = c"
    by (simp_all add: word_less_nat_alt unat_of_nat)
  with Cons show ?case by simp
qed

lemma ascii_bytes: "is_ascii s \<Longrightarrow> list_all (\<lambda>b. b < 0x80) (map (of_nat :: nat \<Rightarrow> byte) s)"
  by (induction s) (simp_all add: word_less_nat_alt unat_of_nat)

lemma utf8_encode_from_Inl: "utf8_encode_from i s = Inl e \<Longrightarrow> \<exists>c\<in>set s. is_surrogate c"
  by (induction s arbitrary: i) (auto simp: bind_exc_eq_Inl split: if_splits)


subsection \<open>Every scalar value\<close>

text \<open>
  The bytes and masks of the encoder and the decoder, read as natural numbers: an
  \<open>OR\<close> of disjoint bit fields is a sum, an \<open>AND\<close> with a low mask a remainder.
\<close>

lemma unat_byte: "v < 256 \<Longrightarrow> unat (of_nat v :: byte) = v"
  by (simp add: unat_of_nat)

lemma ucast_byte: "unat (w :: 32 word) < 256 \<Longrightarrow> (ucast w :: byte) = of_nat (unat w)"
  by (simp add: word_unat_eq_iff unsigned_ucast_eq unat_of_nat take_bit_nat_eq_self)

lemma unat_cp: "c < 0x110000 \<Longrightarrow> unat (of_nat c :: 32 word) = c"
  by (simp add: unat_of_nat)

lemma unat_or_field:
  "unat (w :: 32 word) < 2 ^ k \<Longrightarrow> unat K mod 2 ^ k = 0 \<Longrightarrow> unat (K OR w) = unat K + unat w"
  by (simp add: unsigned_or_eq or_disjoint_nat)

lemma unat_and_3f: "unat ((w :: 32 word) AND 0x3F) = unat w mod 64"
proof -
  have "(mask 6 :: nat) = 63" by (simp add: mask_eq_exp_minus_1)
  then show ?thesis using and_mask_nat [of "unat w" 6] by (simp add: unsigned_and_eq)
qed

lemma unat_drop_bit_cp: "unat (drop_bit n (w :: 32 word)) = unat w div 2 ^ n"
  unfolding unat_drop_bit_eq by (simp add: drop_bit_eq_div)

lemma byte_field:
  "unat (w :: 32 word) < 2 ^ k \<Longrightarrow> unat K mod 2 ^ k = 0 \<Longrightarrow> unat K + unat w < 256 \<Longrightarrow>
     (ucast (K OR w) :: byte) = of_nat (unat K + unat w)"
proof -
  assume a: "unat w < 2 ^ k" "unat K mod 2 ^ k = 0" "unat K + unat w < 256"
  have h: "unat (K OR w) = unat K + unat w" by (rule unat_or_field [OF a(1,2)])
  then have "unat (K OR w) < 256" using a(3) by simp
  then have "(ucast (K OR w) :: byte) = of_nat (unat (K OR w))" by (rule ucast_byte)
  then show ?thesis by (simp only: h)
qed

lemma unat_and_low: "unat w = mask k \<Longrightarrow> unat ((b :: 'a::len word) AND w) = unat b mod 2 ^ k"
  by (simp add: unsigned_and_eq and_mask_nat)

lemma byte_masks: "unat (0x1F :: byte) = mask 5" "unat (0x0F :: byte) = mask 4" "unat (0x07 :: byte) = mask 3"
  "unat (0x3F :: byte) = mask 6"
  by (simp_all add: mask_eq_exp_minus_1)

lemma field_byte:
  assumes "r < 2 ^ k" and "K mod 2 ^ k = 0" and "K + r < 256" and "unat w = mask k"
  shows "unat ((of_nat (K + r) :: byte) AND w) = r"
proof -
  have "unat ((of_nat (K + r) :: byte) AND w) = unat (of_nat (K + r) :: byte) mod 2 ^ k"
    by (rule unat_and_low [OF assms(4)])
  also have "unat (of_nat (K + r) :: byte) = K + r" by (rule unat_byte [OF assms(3)])
  finally show ?thesis using add_mod_low [OF assms(1,2)] by simp
qed

lemma is_cont_byte: "x < 64 \<Longrightarrow> is_cont (of_nat (128 + x))"
proof -
  assume x: "x < 64"
  have "(push_bit 6 2 + x) AND push_bit 6 3 = push_bit 6 ((2::nat) AND 3)"
    using x by (intro and_high_nat) simp
  then have a: "(128 + x) AND 192 = 128" by (simp add: push_bit_eq_mult)
  have "unat ((of_nat (128 + x) :: byte) AND 0xC0) = unat (of_nat (128 + x) :: byte) AND 192"
    by (simp only: unsigned_and_eq) simp
  also have "unat (of_nat (128 + x) :: byte) = 128 + x" using x by (intro unat_byte) simp
  finally have "unat ((of_nat (128 + x) :: byte) AND 0xC0) = unat (0x80 :: byte)" using a by simp
  then show ?thesis unfolding is_cont_def word_unat_eq_iff .
qed

lemma cont_byte_val: "x < 64 \<Longrightarrow> unat ((of_nat (128 + x) :: byte) AND 0x3F) = x"
  by (rule field_byte [OF _ _ _ byte_masks(4)]) simp_all

lemma lead_byte_val:
  "q < 32 \<Longrightarrow> unat ((of_nat (0xC0 + q) :: byte) AND 0x1F) = q"
  "q < 16 \<Longrightarrow> unat ((of_nat (0xE0 + q) :: byte) AND 0x0F) = q"
  "q < 8 \<Longrightarrow> unat ((of_nat (0xF0 + q) :: byte) AND 0x07) = q"
    apply (rule field_byte [OF _ _ _ byte_masks(1)]; simp)
   apply (rule field_byte [OF _ _ _ byte_masks(2)]; simp)
  apply (rule field_byte [OF _ _ _ byte_masks(3)]; simp)
  done

lemmas byte_simps = word_less_nat_alt word_le_nat_alt unat_byte is_cont_byte cont_byte_val lead_byte_val

lemma utf8_decode_2:
  assumes "2 \<le> q" "q < 32" "x < 64"
  shows "utf8_decode (of_nat (0xC0 + q) # of_nat (0x80 + x) # rest) = map_option (Cons (q * 64 + x)) (utf8_decode rest)"
  using assms by (simp add: byte_simps del: of_nat_add)

lemma utf8_decode_3:
  assumes "q < 16" "x1 < 64" "x2 < 64" "0x800 \<le> q * 4096 + x1 * 64 + x2" "\<not> is_surrogate (q * 4096 + x1 * 64 + x2)"
  shows "utf8_decode (of_nat (0xE0 + q) # of_nat (0x80 + x1) # of_nat (0x80 + x2) # rest) =
    map_option (Cons (q * 4096 + x1 * 64 + x2)) (utf8_decode rest)"
  using assms by (simp add: byte_simps Let_def del: of_nat_add)

lemma utf8_decode_4:
  assumes "q < 5" "x1 < 64" "x2 < 64" "x3 < 64"
    and "0x10000 \<le> q * 262144 + x1 * 4096 + x2 * 64 + x3" "q * 262144 + x1 * 4096 + x2 * 64 + x3 < 0x110000"
  shows "utf8_decode (of_nat (0xF0 + q) # of_nat (0x80 + x1) # of_nat (0x80 + x2) # of_nat (0x80 + x3) # rest) =
    map_option (Cons (q * 262144 + x1 * 4096 + x2 * 64 + x3)) (utf8_decode rest)"
  using assms by (simp add: byte_simps Let_def del: of_nat_add)

lemma utf8_decode_ref:
  assumes "c < 0x110000" and "\<not> is_surrogate c"
  shows "utf8_decode (map of_nat (utf8_ref c) @ rest) = map_option (Cons c) (utf8_decode rest)"
proof -
  have m1: "c mod 4096 = 64 * (c div 64 mod 64) + c mod 64" using mod_mult2_eq [of c 64 64] by simp
  have m2: "c mod 262144 = 4096 * (c div 4096 mod 64) + c mod 4096" using mod_mult2_eq [of c 4096 64] by simp
  consider "c < 0x80" | "0x80 \<le> c" "c < 0x800" | "0x800 \<le> c" "c < 0x10000" | "0x10000 \<le> c"
    by linarith
  then show ?thesis
  proof cases
    case 1
    then show ?thesis by (simp add: utf8_ref_def byte_simps del: of_nat_add)
  next
    case 2
    then show ?thesis
      using utf8_decode_2 [of "c div 64" "c mod 64" rest] by (simp add: utf8_ref_def)
  next
    case 3
    have "c div 4096 * 4096 + c div 64 mod 64 * 64 + c mod 64 = c"
      using div_mult_mod_eq [of c 4096] m1 by linarith
    with 3 assms(2) show ?thesis
      using utf8_decode_3 [of "c div 4096" "c div 64 mod 64" "c mod 64" rest] by (simp add: utf8_ref_def)
  next
    case 4
    have "c div 262144 * 262144 + c div 4096 mod 64 * 4096 + c div 64 mod 64 * 64 + c mod 64 = c"
      using div_mult_mod_eq [of c 262144] m1 m2 by linarith
    with 4 assms(1) show ?thesis
      using utf8_decode_4 [of "c div 262144" "c div 4096 mod 64" "c div 64 mod 64" "c mod 64" rest]
      by (simp add: utf8_ref_def)
  qed
qed

lemma utf8_bytes_table: "c < 0x110000 \<Longrightarrow> utf8_bytes (of_nat c) = map of_nat (utf8_ref c)"
proof -
  assume c: "c < 0x110000"
  let ?ch = "of_nat c :: 32 word"
  have u: "unat ?ch = c" using c by (rule unat_cp)
  have lt: "?ch < 0x80 \<longleftrightarrow> c < 0x80" "?ch < 0x800 \<longleftrightarrow> c < 0x800" "?ch < 0x10000 \<longleftrightarrow> c < 0x10000"
    by (simp_all add: word_less_nat_alt u)
  have cont: "(ucast (0x80 OR (?ch AND 0x3F)) :: byte) = of_nat (0x80 + c mod 64)"
    "(ucast (0x80 OR (drop_bit 6 ?ch AND 0x3F)) :: byte) = of_nat (0x80 + c div 64 mod 64)"
    "(ucast (0x80 OR (drop_bit 12 ?ch AND 0x3F)) :: byte) = of_nat (0x80 + c div 4096 mod 64)"
    by (simp_all add: byte_field [where k = 6] unat_and_3f unat_drop_bit_cp u)
  show ?thesis
  proof (cases "c < 0x80")
    case True
    then show ?thesis using c by (simp add: utf8_ref_def)
  next
    case c1: False
    show ?thesis
    proof (cases "c < 0x800")
      case True
      then have "(ucast (0xC0 OR drop_bit 6 ?ch) :: byte) = of_nat (0xC0 + c div 64)"
        by (simp add: byte_field [where k = 6] unat_drop_bit_cp u)
      with True c1 show ?thesis by (simp add: utf8_bytes_def utf8_ref_def lt cont)
    next
      case c2: False
      show ?thesis
      proof (cases "c < 0x10000")
        case True
        then have "(ucast (0xE0 OR drop_bit 12 ?ch) :: byte) = of_nat (0xE0 + c div 4096)"
          by (simp add: byte_field [where k = 4] unat_drop_bit_cp u)
        with True c1 c2 show ?thesis by (simp add: utf8_bytes_def utf8_ref_def lt cont)
      next
        case False
        have "(ucast (0xF0 OR drop_bit 18 ?ch) :: byte) = of_nat (0xF0 + c div 262144)"
          using c by (simp add: byte_field [where k = 3] unat_drop_bit_cp u)
        with False c1 c2 show ?thesis by (simp add: utf8_bytes_def utf8_ref_def lt cont)
      qed
    qed
  qed
qed

lemma utf8_encode_from_ref:
  "valid_ustr s \<Longrightarrow> utf8_encode_from i s =
     (if list_all (\<lambda>c. \<not> is_surrogate c) s then Inr (concat (map (\<lambda>c. map of_nat (utf8_ref c)) s))
      else Inl (UnicodeEncodeError (i + length (takeWhile (\<lambda>c. \<not> is_surrogate c) s))))"
  by (induction s arbitrary: i) (auto simp: utf8_bytes_table)

lemma utf8_encode_from_scalars:
  "list_all (\<lambda>c. c < 0x110000 \<and> \<not> is_surrogate c) s \<Longrightarrow>
     utf8_encode_from i s = Inr (concat (map (\<lambda>c. map of_nat (utf8_ref c)) s))"
  by (induction s arbitrary: i) (simp_all add: utf8_bytes_table)

lemma utf8_decode_scalars:
  "list_all (\<lambda>c. c < 0x110000 \<and> \<not> is_surrogate c) s \<Longrightarrow>
     utf8_decode (concat (map (\<lambda>c. map of_nat (utf8_ref c)) s)) = Some s"
  by (induction s) (simp_all add: utf8_decode_ref)

text \<open>
  C15. Equivalence: \<open>str.encode("utf-8")\<close> as CPython's \<open>utf8_encoder\<close> computes
  it, shifts and masks on 32-bit code units cast to bytes, is the reference
  encoder: on every string of code points it writes the bytes of the Unicode
  Standard's table, or raises \<open>UnicodeEncodeError\<close> at the first surrogate.
\<close>

theorem py_encode_utf8_ref: "valid_ustr s \<Longrightarrow> py_encode_utf8 s = utf8_encode_ref s"
  by (simp add: py_encode_utf8_def utf8_encode_ref_def utf8_encode_from_ref)

theorem py_encode_utf8_ref_witness:
  "valid_ustr [0x1F600, 233, 0xD800, 65] \<and>
   py_encode_utf8 [0x1F600, 233, 0xD800, 65] = utf8_encode_ref [0x1F600, 233, 0xD800, 65]"
  using py_encode_utf8_ref [of "[0x1F600, 233, 0xD800, 65]"] by simp

text \<open>
  C16. Round trip: every string of Unicode scalar values (code points below
  \<open>0x110000\<close>, no surrogate) is encoded by \<open>str.encode("utf-8")\<close> without error,
  and the receiving client's strict decoder gives back exactly that string.
\<close>

theorem utf8_roundtrip:
  assumes "list_all (\<lambda>c. c < 0x110000 \<and> \<not> is_surrogate c) s"
  shows "\<exists>bs. py_encode_utf8 s = Inr bs \<and> utf8_decode bs = Some s"
  using assms by (simp add: py_encode_utf8_def utf8_encode_from_scalars utf8_decode_scalars)

theorem utf8_roundtrip_witness:
  "list_all (\<lambda>c. c < 0x110000 \<and> \<not> is_surrogate c) [0x1F600, 233, 65, 0x800, 0xFFFF] \<and>
   (\<exists>bs. py_encode_utf8 [0x1F600, 233, 65, 0x800, 0xFFFF] = Inr bs \<and>
     utf8_decode bs = Some [0x1F600, 233, 65, 0x800, 0xFFFF])"
proof -
  have h: "list_all (\<lambda>c. c < 0x110000 \<and> \<not> is_surrogate c) [0x1F600, 233, 65, 0x800, 0xFFFF]"
    by (simp add: is_surrogate_def)
  show ?thesis using utf8_roundtrip [OF h] h by blast
qed

end
