(* ===== verification/Api_Gateway.thy ===== *)
theory Api_Gateway
  imports Utf8
begin

text \<open>
  The two platform services the handler composes, outside this repository and
  modelled from the spec (sections 2, 4.1, 6 and 7): the API Gateway WebSocket API
  that keeps the open connections and pushes data to them, and the boto3 client
  through which the handler calls its management API.

  \<open>api_state\<close> is what the API keeps: its own domain name and stage (which make
  its management endpoint \<open>https://{domain}/{stage}\<close>), the connection identifiers
  that are open, every identifier it ever issued (identifiers are never reused),
  and the log of the payloads it delivered, in order, each with the connection it
  went to (\<open>stream st cid\<close> is what connection \<open>cid\<close> received). \<open>api_post\<close> is the
  service's \<open>PostToConnection\<close>: a request to another endpoint is refused
  (\<open>ForbiddenException\<close>), one to a connection that is not open fails with
  \<open>GoneException\<close> (HTTP 410, the stale connection of spec section 7), one whose
  payload exceeds the service quota fails with \<open>PayloadTooLargeException\<close>;
  otherwise the payload is delivered, appended to the log.
  \<open>boto_post_to_connection\<close> is the client method: botocore validates the
  parameters first (\<open>ConnectionId\<close> must be a \<open>str\<close>) and raises
  \<open>ParamValidationError\<close> without sending anything; a service error comes back as
  \<open>ClientError\<close>. The client is the endpoint URL it is bound to.
\<close>

record api_state =
  api_domain :: ustr
  api_stage :: ustr
  connections :: "ustr set"
  issued :: "ustr set"
  pushed :: "(ustr \<times> bytes) list"

text \<open>The service quota on the size of one WebSocket message, 128 KiB.\<close>

definition max_payload :: nat where
  "max_payload = 131072"

definition api_endpoint :: "api_state \<Rightarrow> ustr" where
  "api_endpoint st = ustr ''https://'' @ api_domain st @ [47] @ api_stage st"

definition api_post :: "ustr \<Rightarrow> ustr \<Rightarrow> bytes \<Rightarrow> api_state \<Rightarrow> py_exc + api_state" where
  "api_post url cid data st =
     (if url \<noteq> api_endpoint st then Inl (ClientError ForbiddenException)
      else if cid \<notin> connections st then Inl (ClientError GoneException)
      else if max_payload < length data then Inl (ClientError PayloadTooLargeException)
      else Inr (st\<lparr>pushed := pushed st @ [(cid, data)]\<rparr>))"

definition stream :: "api_state \<Rightarrow> ustr \<Rightarrow> bytes list" where
  "stream st cid = map snd (filter (\<lambda>p. fst p = cid) (pushed st))"

type_synonym client = ustr

definition make_client :: "ustr \<Rightarrow> client" where
  "make_client url = url"

fun boto_post_to_connection :: "client \<Rightarrow> bytes \<Rightarrow> pyval \<Rightarrow> api_state \<Rightarrow> py_exc + api_state" where
  "boto_post_to_connection cl data (PStr cid) st = api_post cl cid data st"
| "boto_post_to_connection cl data v st = Inl (ParamValidationError (py_type_name v))"

subsection \<open>Connections\<close>

text \<open>A client opens a connection under a fresh identifier, or closes an open one.\<close>

definition api_connect :: "ustr \<Rightarrow> api_state \<Rightarrow> api_state" where
  "api_connect cid st = st\<lparr>connections := insert cid (connections st), issued := insert cid (issued st)\<rparr>"

definition api_disconnect :: "ustr \<Rightarrow> api_state \<Rightarrow> api_state" where
  "api_disconnect cid st = st\<lparr>connections := connections st - {cid}\<rparr>"

text \<open>
  The event API Gateway hands the Lambda function when connection \<open>cid\<close> sends a
  message (spec section 6): the request context names the API's own domain and
  stage and the sender's connection, and the text frame, when there is one, is the
  \<open>body\<close>.
\<close>

definition ws_event :: "api_state \<Rightarrow> ustr \<Rightarrow> ustr option \<Rightarrow> pyval" where
  "ws_event st cid body =
     PDict ((ustr ''requestContext'',
             PDict [(ustr ''domainName'', PStr (api_domain st)), (ustr ''stage'', PStr (api_stage st)),
                    (ustr ''connectionId'', PStr cid)])
            # (case body of None \<Rightarrow> [] | Some t \<Rightarrow> [(ustr ''body'', PStr t)]))"

subsection \<open>Lemmas\<close>

lemma api_post_Inr:
  "api_post url cid data st = Inr st' \<longleftrightarrow>
     url = api_endpoint st \<and> cid \<in> connections st \<and> length data \<le> max_payload \<and>
     st' = st\<lparr>pushed := pushed st @ [(cid, data)]\<rparr>"
  by (auto simp: api_post_def not_less)

lemma boto_post_to_connection_Inr:
  "boto_post_to_connection cl data v st = Inr st' \<longleftrightarrow> (\<exists>cid. v = PStr cid \<and> api_post cl cid data st = Inr st')"
  by (cases v) auto

lemma api_post_Inl: "api_post url cid data st = Inl e \<Longrightarrow> \<exists>a. e = ClientError a"
  by (auto simp: api_post_def split: if_splits)

lemma api_post_frame:
  "api_post url cid data st = Inr st' \<Longrightarrow>
     api_domain st' = api_domain st \<and> api_stage st' = api_stage st \<and>
     connections st' = connections st \<and> issued st' = issued st"
  by (auto simp: api_post_Inr)

end
