(* ===== verification/Send_Message.thy ===== *)
theory Send_Message
  imports Json_Decode Py_Format Api_Gateway
begin

text \<open>
  \<open>lambda_handler(event, context)\<close> of \<open>src/lambdas/sendmessage/sendmessage.py\<close>,
  one definition per line, in the order the lines run. \<open>event\<close> is the object the
  Lambda runtime decoded from the invocation; \<open>context\<close> is not read. Every line
  may raise, and the first exception ends the invocation (nothing in the handler
  catches); only the call at lines 16 to 19 touches the platform, so an
  invocation that raises leaves the platform state as it was, and one that returns
  has pushed exactly one payload.
\<close>

text \<open>Lines 6, 7 and 11: \<open>event["requestContext"][key]\<close>.\<close>

definition request_context_field :: "pyval \<Rightarrow> ustr \<Rightarrow> py_exc + pyval" where
  "request_context_field event key =
     bind_exc (py_getitem event (ustr ''requestContext'')) (\<lambda>rc. py_getitem rc key)"

definition domain_name_of :: "pyval \<Rightarrow> py_exc + pyval" where
  "domain_name_of event = request_context_field event (ustr ''domainName'')"

definition stage_of :: "pyval \<Rightarrow> py_exc + pyval" where
  "stage_of event = request_context_field event (ustr ''stage'')"

text \<open>Line 8: \<open>f"https://{domain_name}/{stage}"\<close>.\<close>

definition endpoint_url :: "pyval \<Rightarrow> pyval \<Rightarrow> ustr" where
  "endpoint_url domain_name stage = ustr ''https://'' @ py_str domain_name @ [47] @ py_str stage"

definition connection_id_of :: "pyval \<Rightarrow> py_exc + pyval" where
  "connection_id_of event = request_context_field event (ustr ''connectionId'')"

text \<open>Line 12: \<open>event.get("body", "{}")\<close>.\<close>

definition body_str_of :: "pyval \<Rightarrow> py_exc + pyval" where
  "body_str_of event = py_dict_get event (ustr ''body'') (PStr (ustr ''{}''))"

text \<open>Line 14: \<open>body.get("message", "")\<close>.\<close>

definition message_of :: "pyval \<Rightarrow> py_exc + pyval" where
  "message_of body = py_dict_get body (ustr ''message'') (PStr [])"

text \<open>Line 17: \<open>json.dumps({"message": message}).encode("utf-8")\<close>.\<close>

definition outbound_data :: "pyval \<Rightarrow> py_exc + bytes" where
  "outbound_data message = py_encode_utf8 (json_dumps (PDict [(ustr ''message'', message)]))"

text \<open>Line 21: \<open>{'statusCode': 200,}\<close>.\<close>

definition handler_response :: pyval where
  "handler_response = PDict [(ustr ''statusCode'', PInt 200)]"

text \<open>
  Lines 5 to 21. The keyword arguments of \<open>post_to_connection\<close> are evaluated in
  order, \<open>Data\<close> (line 17) before \<open>ConnectionId\<close> (line 18, a variable), and then
  the call is made.
\<close>

definition lambda_handler :: "pyval \<Rightarrow> api_state \<Rightarrow> (py_exc + pyval) \<times> api_state" where
  "lambda_handler event st =
     (case
        bind_exc (domain_name_of event) (\<lambda>domain_name.
        bind_exc (stage_of event) (\<lambda>stage.
        let client = make_client (endpoint_url domain_name stage) in
        bind_exc (connection_id_of event) (\<lambda>connection_id.
        bind_exc (body_str_of event) (\<lambda>body_str.
        bind_exc (json_loads body_str) (\<lambda>body.
        bind_exc (message_of body) (\<lambda>message.
        bind_exc (outbound_data message) (\<lambda>data.
        boto_post_to_connection client data connection_id st)))))))
      of Inl e \<Rightarrow> (Inl e, st)
       | Inr st' \<Rightarrow> (Inr handler_response, st'))"

subsection \<open>The handler, step by step\<close>

text \<open>
  An invocation returns exactly when every line succeeds and the platform accepts
  the post; it raises with the platform state untouched otherwise.
\<close>

lemma lambda_handler_Inr_iff:
  "lambda_handler event st = (Inr r, st') \<longleftrightarrow>
     (\<exists>dn sg cid bs body msg data.
        domain_name_of event = Inr dn \<and> stage_of event = Inr sg \<and>
        connection_id_of event = Inr (PStr cid) \<and> body_str_of event = Inr bs \<and>
        json_loads bs = Inr body \<and> message_of body = Inr msg \<and> outbound_data msg = Inr data \<and>
        api_post (endpoint_url dn sg) cid data st = Inr st' \<and> r = handler_response)"
  unfolding lambda_handler_def case_sum_state_eq_Inr Let_def make_client_def bind_exc_eq_Inr
    boto_post_to_connection_Inr
  by blast

lemma lambda_handler_Inl: "lambda_handler event st = (Inl e, st') \<Longrightarrow> st' = st"
  unfolding lambda_handler_def case_sum_state_eq_Inl by blast

lemma request_context_ws_event [simp]:
  "domain_name_of (ws_event st cid b) = Inr (PStr (api_domain st))"
  "stage_of (ws_event st cid b) = Inr (PStr (api_stage st))"
  "connection_id_of (ws_event st cid b) = Inr (PStr cid)"
  by (simp_all add: domain_name_of_def stage_of_def connection_id_of_def request_context_field_def
      ws_event_def)

lemma body_str_ws_event [simp]:
  "body_str_of (ws_event st cid b) = Inr (PStr (case b of None \<Rightarrow> ustr ''{}'' | Some t \<Rightarrow> t))"
  by (cases b) (simp_all add: body_str_of_def ws_event_def)

lemma endpoint_url_str [simp]: "endpoint_url (PStr d) (PStr s) = ustr ''https://'' @ d @ [47] @ s"
  by (simp add: endpoint_url_def)

lemma message_of_dict: "message_of (PDict d) = Inr (case map_of d (ustr ''message'') of None \<Rightarrow> PStr [] | Some m \<Rightarrow> m)"
  by (simp add: message_of_def)

text \<open>
  The JSON text is ASCII (\<open>json_encode_ascii\<close>), so the UTF-8 encoding at line 17
  cannot raise, even on a message holding a lone surrogate, and writes one byte per
  character.
\<close>

lemma outbound_data_Inr:
  "outbound_data m = Inr (map of_nat (json_dumps (PDict [(ustr ''message'', m)])))"
  by (simp add: outbound_data_def py_encode_utf8_def json_dumps_def utf8_encode_from_ascii json_encode_ascii
      del: json_encode.simps)

lemmas handler_simps = lambda_handler_def message_of_dict outbound_data_Inr make_client_def
  api_post_def api_endpoint_def

end
