(* ===== verification/Chat_System.thy ===== *)
theory Chat_System
  imports Send_Message
begin

text \<open>
  The chat system as the spec describes it (sections 2 and 5): API Gateway accepts
  connections, takes text frames from them and invokes \<open>lambda_handler\<close> once per
  frame, each invocation independent of the others and possibly concurrent with them,
  so frames of one connection may be handled in any order. \<open>chat_exec\<close> is one
  event of that system: a connection opened or closed, a frame received (queued in
  the multiset \<open>pending\<close> of invocations still to run), or one pending invocation
  run, whose effect on the platform is exactly that of the handler model of
  \<open>Send_Message\<close>. \<open>echo_step\<close> is the abstract echo service the handler
  implements: a frame in the inbox is either delivered as its echo to its own open
  connection or dropped. The theory proves the refinement of \<open>echo_step\<close> by
  \<open>chat_exec\<close>, an invariant of the reachable states (every payload pushed is the
  echo of a distinct frame received on the same connection), that every pending
  invocation can run to completion and, when no connection closes, that every frame
  whose echo fits is then echoed exactly once, and a run in which two frames are echoed in the
  reverse of the order they were sent.
\<close>

subsection \<open>The reply of one invocation\<close>

text \<open>
  The payload the handler posts for a frame with body \<open>b\<close>, when the body parses
  as a JSON object (lines 12 to 17); \<open>None\<close> when an invocation on that body
  raises before the post.
\<close>

definition echo_reply :: "ustr option \<Rightarrow> bytes option" where
  "echo_reply b =
     (case json_loads (PStr (case b of None \<Rightarrow> ustr ''{}'' | Some t \<Rightarrow> t)) of
        Inr (PDict d) \<Rightarrow>
          Some (map of_nat (json_dumps (PDict [(ustr ''message'',
                  case map_of d (ustr ''message'') of None \<Rightarrow> PStr [] | Some m \<Rightarrow> m)])))
      | _ \<Rightarrow> None)"

subsection \<open>The system\<close>

text \<open>
  \<open>api\<close> is the platform state, \<open>pending\<close> the frames whose invocation has not
  run yet, \<open>received\<close> the frames in the order API Gateway received them.
\<close>

record chat_state =
  api :: api_state
  pending :: "(ustr \<times> ustr option) multiset"
  received :: "(ustr \<times> ustr option) list"

datatype chat_event = Connect ustr | Disconnect ustr | Receive ustr "ustr option" | Invoke ustr "ustr option"

fun chat_exec :: "chat_state \<Rightarrow> chat_event \<Rightarrow> chat_state option" where
  "chat_exec s (Connect cid) =
     (if cid \<in> issued (api s) then None else Some (s\<lparr>api := api_connect cid (api s)\<rparr>))"
| "chat_exec s (Disconnect cid) =
     (if cid \<in> connections (api s) then Some (s\<lparr>api := api_disconnect cid (api s)\<rparr>) else None)"
| "chat_exec s (Receive cid b) =
     (if cid \<in> connections (api s)
      then Some (s\<lparr>pending := pending s + {#(cid, b)#}, received := received s @ [(cid, b)]\<rparr>)
      else None)"
| "chat_exec s (Invoke cid b) =
     (if (cid, b) \<in># pending s
      then Some (s\<lparr>api := snd (lambda_handler (ws_event (api s) cid b) (api s)), pending := pending s - {#(cid, b)#}\<rparr>)
      else None)"

fun chat_run :: "chat_state \<Rightarrow> chat_event list \<Rightarrow> chat_state option" where
  "chat_run s [] = Some s"
| "chat_run s (e # es) = (case chat_exec s e of None \<Rightarrow> None | Some s' \<Rightarrow> chat_run s' es)"

definition chat_init :: "ustr \<Rightarrow> ustr \<Rightarrow> chat_state" where
  "chat_init dn sg =
     \<lparr>api = \<lparr>api_domain = dn, api_stage = sg, connections = {}, issued = {}, pushed = []\<rparr>,
      pending = {#}, received = []\<rparr>"

inductive chat_reach :: "ustr \<Rightarrow> ustr \<Rightarrow> chat_state \<Rightarrow> bool" for dn sg where
  init: "chat_reach dn sg (chat_init dn sg)"
| step: "chat_reach dn sg s \<Longrightarrow> chat_exec s e = Some s' \<Longrightarrow> chat_reach dn sg s'"

subsection \<open>The abstract echo service\<close>

record echo_state =
  e_open :: "ustr set"
  e_issued :: "ustr set"
  e_inbox :: "(ustr \<times> ustr option) multiset"
  e_out :: "(ustr \<times> bytes) list"

definition deliverable :: "echo_state \<Rightarrow> ustr \<Rightarrow> ustr option \<Rightarrow> bool" where
  "deliverable a cid b \<longleftrightarrow>
     cid \<in> e_open a \<and> (case echo_reply b of Some p \<Rightarrow> length p \<le> max_payload | None \<Rightarrow> False)"

inductive echo_step :: "echo_state \<Rightarrow> echo_state \<Rightarrow> bool" where
  e_connect: "cid \<notin> e_issued a \<Longrightarrow>
     echo_step a (a\<lparr>e_open := insert cid (e_open a), e_issued := insert cid (e_issued a)\<rparr>)"
| e_disconnect: "cid \<in> e_open a \<Longrightarrow> echo_step a (a\<lparr>e_open := e_open a - {cid}\<rparr>)"
| e_receive: "cid \<in> e_open a \<Longrightarrow> echo_step a (a\<lparr>e_inbox := e_inbox a + {#(cid, b)#}\<rparr>)"
| e_deliver: "(cid, b) \<in># e_inbox a \<Longrightarrow> deliverable a cid b \<Longrightarrow> echo_reply b = Some p \<Longrightarrow>
     echo_step a (a\<lparr>e_inbox := e_inbox a - {#(cid, b)#}, e_out := e_out a @ [(cid, p)]\<rparr>)"
| e_drop: "(cid, b) \<in># e_inbox a \<Longrightarrow> \<not> deliverable a cid b \<Longrightarrow>
     echo_step a (a\<lparr>e_inbox := e_inbox a - {#(cid, b)#}\<rparr>)"

definition chat_abs :: "chat_state \<Rightarrow> echo_state" where
  "chat_abs s = \<lparr>e_open = connections (api s), e_issued = issued (api s), e_inbox = pending s, e_out = pushed (api s)\<rparr>"

definition replies :: "(ustr \<times> ustr option) multiset \<Rightarrow> (ustr \<times> bytes) multiset" where
  "replies M = image_mset (\<lambda>(c, b). (c, the (echo_reply b))) (filter_mset (\<lambda>(c, b). echo_reply b \<noteq> None) M)"

definition chat_inv :: "chat_state \<Rightarrow> bool" where
  "chat_inv s \<longleftrightarrow> connections (api s) \<subseteq> issued (api s) \<and> pending s \<subseteq># mset (received s) \<and>
     mset (pushed (api s)) \<subseteq># replies (mset (received s) - pending s)"

text \<open>
  The echoes the platform accepts: those of frames whose body parses as an object
  and whose payload fits the quota.
\<close>

definition fit_replies :: "(ustr \<times> ustr option) multiset \<Rightarrow> (ustr \<times> bytes) multiset" where
  "fit_replies M =
     image_mset (\<lambda>(c, b). (c, the (echo_reply b)))
       (filter_mset (\<lambda>(c, b). case echo_reply b of Some p \<Rightarrow> length p \<le> max_payload | None \<Rightarrow> False) M)"

fun is_disconnect :: "chat_event \<Rightarrow> bool" where
  "is_disconnect (Disconnect _) = True"
| "is_disconnect _ = False"

definition chat_inv_open :: "chat_state \<Rightarrow> bool" where
  "chat_inv_open s \<longleftrightarrow> (\<forall>f \<in># pending s. fst f \<in> connections (api s)) \<and> pending s \<subseteq># mset (received s) \<and>
     mset (pushed (api s)) = fit_replies (mset (received s) - pending s)"

text \<open>A run of the system in which one connection sends two frames.\<close>

definition reorder_recv :: "chat_event list" where
  "reorder_recv = [Connect (ustr ''c''), Receive (ustr ''c'') (Some (ustr ''{\"message\": 1}'')),
     Receive (ustr ''c'') (Some (ustr ''{\"message\": 2}''))]"

definition reorder_run :: "chat_event list" where
  "reorder_run = reorder_recv @
     [Invoke (ustr ''c'') (Some (ustr ''{\"message\": 2}'')), Invoke (ustr ''c'') (Some (ustr ''{\"message\": 1}''))]"

subsection \<open>One invocation on a platform event\<close>

text \<open>
  The platform state after an invocation on the event API Gateway builds for a frame:
  the echo is appended to the delivery log when the body parses as an object, the
  connection is open and the payload fits; the state is unchanged otherwise.
\<close>

lemma lambda_handler_ws_event_state:
  "snd (lambda_handler (ws_event st cid b) st) =
     (case echo_reply b of
        Some p \<Rightarrow> if cid \<in> connections st \<and> length p \<le> max_payload then st\<lparr>pushed := pushed st @ [(cid, p)]\<rparr> else st
      | None \<Rightarrow> st)"
proof (cases "json_loads (PStr (case b of None \<Rightarrow> ustr ''{}'' | Some t \<Rightarrow> t))")
  case (Inl e)
  then show ?thesis by (simp add: echo_reply_def lambda_handler_def)
next
  case (Inr v)
  then show ?thesis
  proof (cases v)
    case (PDict d)
    with Inr show ?thesis
      by (simp add: echo_reply_def handler_simps)
  qed (simp_all add: echo_reply_def lambda_handler_def message_of_def)
qed

subsection \<open>Refinement\<close>

lemma chat_exec_refines:
  assumes "chat_exec s e = Some s'"
  shows "echo_step (chat_abs s) (chat_abs s')"
proof (cases e)
  case (Connect cid)
  with assms have "cid \<notin> e_issued (chat_abs s)" "s' = s\<lparr>api := api_connect cid (api s)\<rparr>"
    by (auto simp: chat_abs_def split: if_splits)
  then show ?thesis using echo_step.e_connect by (fastforce simp: chat_abs_def api_connect_def)
next
  case (Disconnect cid)
  with assms have "cid \<in> e_open (chat_abs s)" "s' = s\<lparr>api := api_disconnect cid (api s)\<rparr>"
    by (auto simp: chat_abs_def split: if_splits)
  then show ?thesis using echo_step.e_disconnect by (fastforce simp: chat_abs_def api_disconnect_def)
next
  case (Receive cid b)
  with assms have "cid \<in> e_open (chat_abs s)"
    "s' = s\<lparr>pending := pending s + {#(cid, b)#}, received := received s @ [(cid, b)]\<rparr>"
    by (auto simp: chat_abs_def split: if_splits)
  then show ?thesis using echo_step.e_receive by (fastforce simp: chat_abs_def)
next
  case (Invoke cid b)
  with assms have mem: "(cid, b) \<in># e_inbox (chat_abs s)"
    and s': "s' = s\<lparr>api := snd (lambda_handler (ws_event (api s) cid b) (api s)), pending := pending s - {#(cid, b)#}\<rparr>"
    by (auto simp: chat_abs_def split: if_splits)
  show ?thesis
  proof (cases "deliverable (chat_abs s) cid b")
    case True
    then obtain p where p: "echo_reply b = Some p" "length p \<le> max_payload" "cid \<in> connections (api s)"
      by (auto simp: deliverable_def chat_abs_def split: option.splits)
    then have "chat_abs s' = (chat_abs s)\<lparr>e_inbox := e_inbox (chat_abs s) - {#(cid, b)#}, e_out := e_out (chat_abs s) @ [(cid, p)]\<rparr>"
      by (simp add: s' chat_abs_def lambda_handler_ws_event_state)
    then show ?thesis using echo_step.e_deliver [OF mem True p(1)] by simp
  next
    case False
    then have "chat_abs s' = (chat_abs s)\<lparr>e_inbox := e_inbox (chat_abs s) - {#(cid, b)#}\<rparr>"
      by (auto simp: s' chat_abs_def lambda_handler_ws_event_state deliverable_def split: option.splits)
    then show ?thesis using echo_step.e_drop [OF mem False] by simp
  qed
qed

lemma chat_run_reach: "chat_reach dn sg s \<Longrightarrow> chat_run s es = Some s' \<Longrightarrow> chat_reach dn sg s'"
  by (induction es arbitrary: s) (auto split: option.splits intro: chat_reach.step)

subsection \<open>The invariant\<close>

lemma replies_plus [simp]: "replies (M + N) = replies M + replies N"
  by (simp add: replies_def)

lemma replies_single [simp]:
  "replies {#(c, b)#} = (case echo_reply b of None \<Rightarrow> {#} | Some p \<Rightarrow> {#(c, p)#})"
  by (simp add: replies_def split: option.splits)

lemma chat_inv_init: "chat_inv (chat_init dn sg)"
  by (simp add: chat_inv_def chat_init_def)

lemma chat_inv_step:
  assumes inv: "chat_inv s" and ex: "chat_exec s e = Some s'"
  shows "chat_inv s'"
proof (cases e)
  case (Invoke cid b)
  with ex have mem: "(cid, b) \<in># pending s"
    and s': "s' = s\<lparr>api := snd (lambda_handler (ws_event (api s) cid b) (api s)), pending := pending s - {#(cid, b)#}\<rparr>"
    by (auto split: if_splits)
  from inv have sub: "pending s \<subseteq># mset (received s)" by (simp add: chat_inv_def)
  have ans: "mset (received s') - pending s' = (mset (received s) - pending s) + {#(cid, b)#}"
    using mset_diff_remove_pending [OF mem sub] by (simp add: s')
  have push: "mset (pushed (api s')) \<subseteq># replies (mset (received s) - pending s) + replies {#(cid, b)#}"
    using inv by (auto simp: s' chat_inv_def lambda_handler_ws_event_state subseteq_add_mset_right
        split: option.splits)
  have "mset (pushed (api s')) \<subseteq># replies (mset (received s') - pending s')"
    unfolding ans replies_plus by (rule push)
  moreover have "pending s' \<subseteq># mset (received s')"
    using sub by (simp add: s') (metis diff_subset_eq_self subset_mset.order_trans)
  moreover have "connections (api s') \<subseteq> issued (api s')"
    using inv by (simp add: s' chat_inv_def lambda_handler_ws_event_state split: option.splits)
  ultimately show ?thesis by (simp add: chat_inv_def)
qed (use inv ex in \<open>auto simp: chat_inv_def api_connect_def api_disconnect_def split: if_splits\<close>)

lemma chat_reach_inv: "chat_reach dn sg s \<Longrightarrow> chat_inv s"
  by (induction rule: chat_reach.induct) (auto intro: chat_inv_init chat_inv_step)

subsection \<open>Properties of the system\<close>

text \<open>
  C4. Refinement: every run of the system is a run of the abstract echo service;
  each invocation either delivers the echo of its frame to the frame's own open
  connection or delivers nothing.
\<close>

lemma chat_run_refines:
  "chat_run s es = Some s' \<Longrightarrow> echo_step\<^sup>*\<^sup>* (chat_abs s) (chat_abs s')"
  by (induction es arbitrary: s)
     (auto split: option.splits intro: converse_rtranclp_into_rtranclp chat_exec_refines)

theorem chat_run_refines_witness:
  "chat_run (chat_init (ustr ''d'') (ustr ''s'')) reorder_run \<noteq> None \<and>
   echo_step\<^sup>*\<^sup>* (chat_abs (chat_init (ustr ''d'') (ustr ''s'')))
     (chat_abs (the (chat_run (chat_init (ustr ''d'') (ustr ''s'')) reorder_run)))"
proof -
  have run: "chat_run (chat_init (ustr ''d'') (ustr ''s'')) reorder_run =
      Some (the (chat_run (chat_init (ustr ''d'') (ustr ''s'')) reorder_run))"
    by code_simp
  show ?thesis using chat_run_refines [OF run] run by (metis option.distinct(1))
qed

text \<open>
  C5. Invariant of the reachable states: every open connection was issued, the
  pending invocations are frames that were received, and the delivery log is, as a
  multiset, contained in the echoes of the frames whose invocation has run: no
  payload is delivered twice, none is made up, none goes to another connection.
\<close>

theorem chat_reach_accounted:
  assumes "chat_reach dn sg s"
  shows "connections (api s) \<subseteq> issued (api s) \<and> pending s \<subseteq># mset (received s) \<and>
    mset (pushed (api s)) \<subseteq># replies (mset (received s) - pending s)"
  using chat_reach_inv [OF assms] by (simp add: chat_inv_def)

theorem chat_reach_accounted_witness:
  "chat_reach (ustr ''d'') (ustr ''s'') (the (chat_run (chat_init (ustr ''d'') (ustr ''s'')) reorder_run)) \<and>
   mset (pushed (api (the (chat_run (chat_init (ustr ''d'') (ustr ''s'')) reorder_run)))) \<subseteq>#
     replies (mset (received (the (chat_run (chat_init (ustr ''d'') (ustr ''s'')) reorder_run))) -
       pending (the (chat_run (chat_init (ustr ''d'') (ustr ''s'')) reorder_run)))"
proof -
  have run: "chat_run (chat_init (ustr ''d'') (ustr ''s'')) reorder_run =
      Some (the (chat_run (chat_init (ustr ''d'') (ustr ''s'')) reorder_run))"
    by code_simp
  have reach: "chat_reach (ustr ''d'') (ustr ''s'') (the (chat_run (chat_init (ustr ''d'') (ustr ''s'')) reorder_run))"
    by (rule chat_run_reach [OF chat_reach.init run])
  show ?thesis using chat_reach_accounted [OF reach] reach by simp
qed

lemma chat_drain:
  "mset xs = pending s \<Longrightarrow>
     \<exists>s'. chat_run s (map (\<lambda>(c, b). Invoke c b) xs) = Some s' \<and> pending s' = {#} \<and> received s' = received s"
proof (induction xs arbitrary: s)
  case (Cons x xs)
  obtain c b where x: "x = (c, b)" by fastforce
  let ?s1 = "s\<lparr>api := snd (lambda_handler (ws_event (api s) c b) (api s)), pending := pending s - {#(c, b)#}\<rparr>"
  have mem: "(c, b) \<in># pending s" and rest: "mset xs = pending ?s1"
    using Cons.prems [symmetric] by (simp_all add: x)
  obtain s' where "chat_run ?s1 (map (\<lambda>(c, b). Invoke c b) xs) = Some s'" "pending s' = {#}"
    "received s' = received s"
    using Cons.IH [OF rest] by auto
  then show ?case using mem by (simp add: x)
qed simp

lemma fit_replies_plus [simp]: "fit_replies (M + N) = fit_replies M + fit_replies N"
  by (simp add: fit_replies_def)

lemma fit_replies_single [simp]:
  "fit_replies {#(c, b)#} =
     (case echo_reply b of Some p \<Rightarrow> if length p \<le> max_payload then {#(c, p)#} else {#} | None \<Rightarrow> {#})"
  by (simp add: fit_replies_def split: option.splits)

lemma chat_inv_open_step:
  assumes inv: "chat_inv_open s" and ex: "chat_exec s e = Some s'" and nd: "\<not> is_disconnect e"
  shows "chat_inv_open s'"
proof (cases e)
  case (Invoke cid b)
  with ex have mem: "(cid, b) \<in># pending s"
    and s': "s' = s\<lparr>api := snd (lambda_handler (ws_event (api s) cid b) (api s)), pending := pending s - {#(cid, b)#}\<rparr>"
    by (auto split: if_splits)
  from inv have sub: "pending s \<subseteq># mset (received s)" and op: "cid \<in> connections (api s)"
    using mem by (auto simp: chat_inv_open_def)
  have ans: "mset (received s') - pending s' = (mset (received s) - pending s) + {#(cid, b)#}"
    using mset_diff_remove_pending [OF mem sub] by (simp add: s')
  have "mset (pushed (api s')) = fit_replies (mset (received s) - pending s) + fit_replies {#(cid, b)#}"
    using inv op by (auto simp: s' chat_inv_open_def lambda_handler_ws_event_state split: option.splits)
  then have "mset (pushed (api s')) = fit_replies (mset (received s') - pending s')"
    unfolding ans fit_replies_plus .
  moreover have "pending s' \<subseteq># mset (received s')"
    using sub by (simp add: s') (metis diff_subset_eq_self subset_mset.order_trans)
  moreover have "\<forall>f \<in># pending s'. fst f \<in> connections (api s')"
    using inv by (auto simp: s' chat_inv_open_def lambda_handler_ws_event_state dest: in_diffD split: option.splits)
  ultimately show ?thesis by (simp add: chat_inv_open_def)
qed (use inv ex nd in \<open>fastforce simp: chat_inv_open_def api_connect_def split: if_splits\<close>)+

lemma chat_run_inv_open:
  "chat_run s es = Some s' \<Longrightarrow> chat_inv_open s \<Longrightarrow> \<forall>e \<in> set es. \<not> is_disconnect e \<Longrightarrow> chat_inv_open s'"
  by (induction es arbitrary: s) (auto split: option.splits intro: chat_inv_open_step)

lemma chat_inv_open_init: "chat_inv_open (chat_init dn sg)"
  by (simp add: chat_inv_open_def chat_init_def fit_replies_def)

text \<open>
  C19. Exactly once: in a run in which no connection closes, the invocations still
  pending can all run, one after the other in any order, and then the delivery log
  is, as a multiset, exactly the echoes of all the frames received that fit the
  quota: each is delivered once, to its own connection, whatever the order.
\<close>

theorem chat_exactly_once:
  assumes "chat_run (chat_init dn sg) es = Some s" and "list_all (\<lambda>e. \<not> is_disconnect e) es"
    and "mset xs = pending s"
  shows "\<exists>s'. chat_run s (map (\<lambda>(c, b). Invoke c b) xs) = Some s' \<and>
    mset (pushed (api s')) = fit_replies (mset (received s))"
proof -
  have inv: "chat_inv_open s"
    using chat_run_inv_open [OF assms(1) chat_inv_open_init] assms(2) by (simp add: list_all_iff)
  obtain s' where run: "chat_run s (map (\<lambda>(c, b). Invoke c b) xs) = Some s'" and
    p: "pending s' = {#}" and r: "received s' = received s"
    using chat_drain [OF assms(3)] by blast
  have "chat_inv_open s'" by (rule chat_run_inv_open [OF run inv]) auto
  then show ?thesis using run p r by (auto simp: chat_inv_open_def)
qed

theorem chat_exactly_once_witness:
  "chat_run (chat_init (ustr ''d'') (ustr ''s'')) reorder_recv =
     Some (the (chat_run (chat_init (ustr ''d'') (ustr ''s'')) reorder_recv)) \<and>
   list_all (\<lambda>e. \<not> is_disconnect e) reorder_recv \<and>
   mset [(ustr ''c'', Some (ustr ''{\"message\": 2}'')), (ustr ''c'', Some (ustr ''{\"message\": 1}''))] =
     pending (the (chat_run (chat_init (ustr ''d'') (ustr ''s'')) reorder_recv)) \<and>
   (\<exists>s'. chat_run (the (chat_run (chat_init (ustr ''d'') (ustr ''s'')) reorder_recv))
      (map (\<lambda>(c, b). Invoke c b) [(ustr ''c'', Some (ustr ''{\"message\": 2}'')), (ustr ''c'', Some (ustr ''{\"message\": 1}''))]) = Some s' \<and>
    mset (pushed (api s')) =
      fit_replies (mset (received (the (chat_run (chat_init (ustr ''d'') (ustr ''s'')) reorder_recv)))))"
proof -
  have run: "chat_run (chat_init (ustr ''d'') (ustr ''s'')) reorder_recv =
     Some (the (chat_run (chat_init (ustr ''d'') (ustr ''s'')) reorder_recv))" by code_simp
  have nd: "list_all (\<lambda>e. \<not> is_disconnect e) reorder_recv" by (simp add: reorder_recv_def)
  have h: "mset [(ustr ''c'', Some (ustr ''{\"message\": 2}'')), (ustr ''c'', Some (ustr ''{\"message\": 1}''))] =
     pending (the (chat_run (chat_init (ustr ''d'') (ustr ''s'')) reorder_recv))" by code_simp
  show ?thesis using chat_exactly_once [OF run nd h] run nd h by blast
qed

end
