(* ===== verification/Json_Roundtrip.thy ===== *)
theory Json_Roundtrip
  imports Json_Decode
begin

text \<open>
  \<open>json.loads\<close> inverts \<open>json.dumps\<close>: the scanner of \<open>Json_Decode\<close> reads back
  every value the encoder of \<open>Json_Encode\<close> writes, followed by any rest that
  cannot extend a number (\<open>scan_once_json_encode\<close>). The proof goes up the
  encoder's layers: hex digits (\<open>hex4_val_hex4\<close>), surrogate pairs
  (\<open>surrogates_split\<close>), the escapes of a string (\<open>scanstring_escaped\<close>),
  integers (\<open>match_number_int\<close>), the four layouts of a float's \<open>repr\<close>
  (\<open>match_number_float\<close>), arrays (\<open>parse_array_json\<close>) and objects
  (\<open>parse_object_json\<close>).

  It needs the value to be one the encoder can write unambiguously
  (\<open>json_rt_wf\<close>): text of code points below \<open>0x110000\<close> with no high
  surrogate directly followed by a low one (\<open>no_split_pair\<close>: the encoder
  writes such a pair as two escapes, which the decoder joins into one character),
  integers of at most \<open>int_max_str_digits\<close> digits, normalised floats, and objects
  with distinct keys.
\<close>

subsection \<open>The values the encoder writes unambiguously\<close>

fun no_split_pair :: "ustr \<Rightarrow> bool" where
  "no_split_pair (a # b # s) \<longleftrightarrow> \<not> (is_high_surrogate a \<and> is_low_surrogate b) \<and> no_split_pair (b # s)"
| "no_split_pair _ \<longleftrightarrow> True"

fun json_rt_wf :: "pyval \<Rightarrow> bool" where
  "json_rt_wf (PStr s) \<longleftrightarrow> valid_ustr s \<and> no_split_pair s"
| "json_rt_wf (PInt i) \<longleftrightarrow> length (nat_digits (nat \<bar>i\<bar>)) \<le> int_max_str_digits"
| "json_rt_wf (PFloat f) \<longleftrightarrow> float_wf f"
| "json_rt_wf (PList xs) \<longleftrightarrow> (\<forall>x\<in>set xs. json_rt_wf x)"
| "json_rt_wf (PDict d) \<longleftrightarrow>
     distinct (map fst d) \<and> (\<forall>kv\<in>set d. valid_ustr (fst kv) \<and> no_split_pair (fst kv) \<and> json_rt_wf (snd kv))"
| "json_rt_wf _ \<longleftrightarrow> True"

definition num_end :: "ustr \<Rightarrow> bool" where
  "num_end r \<longleftrightarrow> r = [] \<or> \<not> is_digit (hd r) \<and> hd r \<noteq> 46 \<and> hd r \<noteq> 101 \<and> hd r \<noteq> 69"

definition digit_end :: "ustr \<Rightarrow> bool" where
  "digit_end r \<longleftrightarrow> r = [] \<or> \<not> is_digit (hd r)"

definition enc_kv :: "ustr \<times> pyval \<Rightarrow> ustr" where
  "enc_kv kv = encode_basestring_ascii (fst kv) @ [58, 32] @ json_encode (snd kv)"

text \<open>
  Unicode text, what a WebSocket text frame decodes to: code points below
  \<open>0x110000\<close> and no surrogate. \<open>starts_low_escape s\<close>: \<open>s\<close> begins with a
  \<open>\\u\<close> escape the scanner would decode to a low surrogate.
\<close>

definition unicode_text :: "ustr \<Rightarrow> bool" where
  "unicode_text s \<longleftrightarrow> list_all (\<lambda>c. c < 0x110000 \<and> \<not> is_high_surrogate c \<and> \<not> is_low_surrogate c) s"

definition starts_low_escape :: "ustr \<Rightarrow> bool" where
  "starts_low_escape s \<longleftrightarrow>
     (case s of a # b # h \<Rightarrow> a = 92 \<and> b = 117 \<and> 4 < length h \<and>
        (case hex4_val h of Some u \<Rightarrow> is_low_surrogate u | None \<Rightarrow> False)
      | _ \<Rightarrow> False)"

subsection \<open>Strings\<close>

lemma hexval_hexdigit [simp]: "d < 16 \<Longrightarrow> hexval (hexdigit d) = Some d"
  by (simp add: hexval_def hexdigit_def)

lemma hex4_val_hex4 [simp]: "v < 2^16 \<Longrightarrow> hex4_val (hex4 v @ r) = Some v"
proof -
  assume v: "v < 2^16"
  have "v mod 256 = 16 * (v div 16 mod 16) + v mod 16"
    using mod_mult2_eq [of v 16 16] by simp
  moreover have "v mod 4096 = 256 * (v div 256 mod 16) + v mod 256"
    using mod_mult2_eq [of v 256 16] by simp
  moreover have "4096 * (v div 4096) + v mod 4096 = v"
    by (rule div_mult_mod_eq [of v 4096, simplified mult.commute])
  ultimately show ?thesis
    using v by (simp add: hex4_val_def hex4_def)
qed

lemma length_hex4 [simp]: "length (hex4 v) = 4"
  by (simp add: hex4_def)

lemma surrogates_split:
  assumes "0x10000 \<le> c" and "c < 0x110000"
  shows "is_high_surrogate (high_surrogate c)" and "is_low_surrogate (low_surrogate c)"
    and "high_surrogate c < 2^16" and "low_surrogate c < 2^16"
    and "join_surrogates (high_surrogate c) (low_surrogate c) = c"
proof -
  have "64 \<le> c div 1024"
    using div_le_mono [OF assms(1), of 1024] by simp
  have "c div 1024 < 1088"
    using less_mult_imp_div_less [of c 1088 1024] assms(2) by simp
  then show "is_high_surrogate (high_surrogate c)" and "high_surrogate c < 2^16"
    using \<open>64 \<le> c div 1024\<close> by (simp_all add: is_high_surrogate_def high_surrogate_def)
  show "is_low_surrogate (low_surrogate c)" and "low_surrogate c < 2^16"
    by (simp_all add: is_low_surrogate_def low_surrogate_def)
  have "(55232 + c div 1024) mod 1024 = c div 1024 - 64"
    using \<open>64 \<le> c div 1024\<close> \<open>c div 1024 < 1088\<close> by (simp add: mod_if)
  moreover have "(c mod 1024 + 56320) mod 1024 = c mod 1024"
    using mod_mult_self1 [of "c mod 1024" 55 1024] by simp
  ultimately show "join_surrogates (high_surrogate c) (low_surrogate c) = c"
    using \<open>64 \<le> c div 1024\<close>
    by (simp add: join_surrogates_def high_surrogate_def low_surrogate_def algebra_simps)
qed

lemma escape_char_cases:
  "s_char c \<and> escape_char c = [c]
   \<or> (\<exists>x. x \<noteq> 117 \<and> simple_escape x = Some c \<and> escape_char c = [92, x])
   \<or> c < 0x10000 \<and> escape_char c = 92 # 117 # hex4 c
   \<or> 0x10000 \<le> c \<and>
       escape_char c = 92 # 117 # hex4 (high_surrogate c) @ 92 # 117 # hex4 (low_surrogate c)"
  by (auto simp: escape_char_def ascii_escape_unichar_def simple_escape_def)

lemma escape_next_u:
  assumes "tail = escape_char x @ t" and "tail ! 0 = 92" and "tail ! 1 = 117" and "x < 0x110000"
  shows "\<exists>y. hex4_val (drop 2 tail) = Some y \<and> (is_low_surrogate y \<longrightarrow> y = x)"
  using escape_char_cases [of x]
proof (elim disjE conjE exE)
  assume "s_char x" "escape_char x = [x]"
  then show ?thesis using assms by (simp add: s_char_def)
next
  fix y assume "y \<noteq> 117" "escape_char x = [92, y]"
  then show ?thesis using assms by simp
next
  assume "x < 0x10000" "escape_char x = 92 # 117 # hex4 x"
  then show ?thesis using assms by simp
next
  assume big: "0x10000 \<le> x" and
    e: "escape_char x = 92 # 117 # hex4 (high_surrogate x) @ 92 # 117 # hex4 (low_surrogate x)"
  have "is_high_surrogate (high_surrogate x)" "high_surrogate x < 2^16"
    using surrogates_split [OF big assms(4)] by simp_all
  then show ?thesis using assms e
    by (auto simp: is_high_surrogate_def is_low_surrogate_def)
qed

lemma scan_escape_bmp:
  assumes "c < 0x10000" and "tail = concat (map escape_char s) @ 34 # rest" and "valid_ustr s"
    and "no_split_pair (c # s)"
  shows "scan_escape 117 (hex4 c @ tail) = Inr (c, tail)"
proof (cases s)
  case Nil
  then show ?thesis using assms by (simp add: scan_escape_def)
next
  case (Cons x s')
  have pair: "is_high_surrogate c \<Longrightarrow> \<not> is_low_surrogate x"
    using assms(4) Cons by simp
  have "tail ! 0 = 92 \<Longrightarrow> tail ! 1 = 117 \<Longrightarrow>
      \<exists>y. hex4_val (drop 2 tail) = Some y \<and> (is_low_surrogate y \<longrightarrow> y = x)"
    using escape_next_u [of tail x "concat (map escape_char s') @ 34 # rest"] assms(2,3) Cons
    by simp
  then show ?thesis
    using assms(1,2) pair by (auto simp: scan_escape_def Let_def split: option.splits)
qed

lemma scan_escape_astral:
  assumes "0x10000 \<le> c" and "c < 0x110000" and "tail \<noteq> []"
  shows "scan_escape 117 (hex4 (high_surrogate c) @ 92 # 117 # hex4 (low_surrogate c) @ tail) = Inr (c, tail)"
  using surrogates_split [OF assms(1,2)] assms(3) by (simp add: scan_escape_def)

lemma no_split_pair_Cons: "no_split_pair (c # s) \<Longrightarrow> no_split_pair s"
  by (cases s) simp_all

lemma scanstring_escaped:
  "valid_ustr s \<Longrightarrow> no_split_pair s \<Longrightarrow>
     scanstring b acc (concat (map escape_char s) @ 34 # rest) = Inr (acc @ s, rest)"
proof (induction s arbitrary: acc)
  case Nil
  then show ?case by simp
next
  case (Cons c s)
  define tail where "tail = concat (map escape_char s) @ 34 # rest"
  have IH: "scanstring b (acc @ [c]) tail = Inr (acc @ c # s, rest)"
    using Cons no_split_pair_Cons by (simp add: tail_def)
  have "c < 0x110000" using Cons.prems(1) by simp
  from escape_char_cases [of c] show ?case
  proof (elim disjE conjE exE)
    assume "s_char c" "escape_char c = [c]"
    then show ?thesis using IH by (simp add: tail_def s_char_def)
  next
    fix x assume "x \<noteq> 117" "simple_escape x = Some c" "escape_char c = [92, x]"
    then show ?thesis using IH by (simp add: tail_def scan_escape_def)
  next
    assume "c < 0x10000" "escape_char c = 92 # 117 # hex4 c"
    then show ?thesis
      using IH scan_escape_bmp [of c tail s rest] Cons.prems by (simp add: tail_def)
  next
    assume "0x10000 \<le> c"
      "escape_char c = 92 # 117 # hex4 (high_surrogate c) @ 92 # 117 # hex4 (low_surrogate c)"
    then show ?thesis
      using IH scan_escape_astral [of c tail] \<open>c < 0x110000\<close> by (simp add: tail_def)
  qed
qed

subsection \<open>Numbers\<close>

lemma digits_val_append: "digits_val v (xs @ ys) = digits_val (digits_val v xs) ys"
  by (induction xs arbitrary: v) simp_all

lemma digits_val_nat_digits: "digits_val v (nat_digits n) = v * 10 ^ length (nat_digits n) + n"
proof (induction n arbitrary: v rule: nat_digits.induct)
  case (1 n)
  show ?case
  proof (cases "n < 10")
    case True
    then have "nat_digits n = [48 + n]"
      by (subst nat_digits.simps) simp
    then show ?thesis by simp
  next
    case False
    then have "nat_digits n = nat_digits (n div 10) @ [48 + n mod 10]"
      by (subst nat_digits.simps) simp
    with False "1.IH" show ?thesis
      by (simp add: digits_val_append algebra_simps)
  qed
qed

lemma nat_digits_Cons:
  "\<exists>d ds. nat_digits n = d # ds \<and> is_digit d \<and> list_all is_digit ds \<and> (d = 48 \<longleftrightarrow> n = 0) \<and> (n = 0 \<longrightarrow> ds = [])"
proof (induction n rule: nat_digits.induct)
  case (1 n)
  show ?case
  proof (cases "n < 10")
    case True
    then show ?thesis by (subst nat_digits.simps) (simp add: is_digit_def)
  next
    case False
    then obtain d ds where "nat_digits (n div 10) = d # ds" "is_digit d" "list_all is_digit ds" "d \<noteq> 48"
      using "1.IH" by fastforce
    with False show ?thesis
      by (subst nat_digits.simps) (simp add: is_digit_def)
  qed
qed

lemma num_end_digit_end: "num_end r \<Longrightarrow> digit_end r"
  by (auto simp: num_end_def digit_end_def)

lemma digit_end_Cons [simp]: "digit_end (c # r) \<longleftrightarrow> \<not> is_digit c"
  by (simp add: digit_end_def)

lemma takeWhile_digits: "list_all is_digit ds \<Longrightarrow> digit_end rest \<Longrightarrow> takeWhile is_digit (ds @ rest) = ds"
  by (induction ds) (cases rest; simp add: digit_end_def)+

lemma dropWhile_digits: "list_all is_digit ds \<Longrightarrow> digit_end rest \<Longrightarrow> dropWhile is_digit (ds @ rest) = rest"
  by (induction ds) (cases rest; simp add: digit_end_def)+

lemma frac_part_end: "num_end rest \<Longrightarrow> frac_part rest = ([], rest)"
  by (auto simp: frac_part_def num_end_def split: list.split)

lemma match_exponent_end: "num_end rest \<Longrightarrow> match_exponent rest = None"
  by (auto simp: match_exponent_def num_end_def split: list.split)

lemma match_number_nat:
  assumes "num_end rest" and "length (nat_digits n) \<le> int_max_str_digits"
  shows "match_number (nat_digits n @ rest) = Inr (PInt (int n), rest)"
    and "0 < n \<Longrightarrow> match_number (45 # nat_digits n @ rest) = Inr (PInt (- int n), rest)"
proof -
  obtain d ds where n: "nat_digits n = d # ds" "is_digit d" "list_all is_digit ds" "d = 48 \<longleftrightarrow> n = 0"
    "n = 0 \<longrightarrow> ds = []"
    using nat_digits_Cons by blast
  have dv: "digits_val 0 (d # ds) = n"
    using digits_val_nat_digits [of 0 n] n(1) by simp
  have len: "\<not> int_max_str_digits < Suc (length ds)" using assms(2) n(1) by simp
  show "match_number (nat_digits n @ rest) = Inr (PInt (int n), rest)"
    using n assms len dv num_end_digit_end [OF assms(1)]
    by (auto simp: match_number_def is_digit_def takeWhile_digits dropWhile_digits frac_part_end
        match_exponent_end)
  show "0 < n \<Longrightarrow> match_number (45 # nat_digits n @ rest) = Inr (PInt (- int n), rest)"
    using n assms len dv num_end_digit_end [OF assms(1)]
    by (auto simp: match_number_def is_digit_def takeWhile_digits dropWhile_digits frac_part_end
        match_exponent_end)
qed

lemma match_number_int:
  "num_end rest \<Longrightarrow> json_rt_wf (PInt i) \<Longrightarrow> match_number (int_repr i @ rest) = Inr (PInt i, rest)"
  using match_number_nat [of rest "nat \<bar>i\<bar>"] by (auto simp: int_repr_def)

lemma frac_part_digits:
  "list_all is_digit fp \<Longrightarrow> fp \<noteq> [] \<Longrightarrow> digit_end rest \<Longrightarrow> frac_part (46 # fp @ rest) = (fp, rest)"
  by (cases fp) (simp_all add: frac_part_def takeWhile_digits dropWhile_digits)

lemma frac_part_e: "frac_part (101 # r) = ([], 101 # r)"
  by (simp add: frac_part_def split: list.split)

lemma match_exponent_exp_str:
  "num_end rest \<Longrightarrow> match_exponent (101 # exp_str x @ rest) = Some (x, rest)"
proof -
  assume rest: "num_end rest"
  obtain d ds where n: "nat_digits (nat \<bar>x\<bar>) = d # ds" "is_digit d" "list_all is_digit ds"
    using nat_digits_Cons by blast
  define pd where "pd = (if length (d # ds) < 2 then 48 # d # ds else d # ds)"
  have pd: "list_all is_digit pd" "pd \<noteq> []" "digits_val 0 pd = nat \<bar>x\<bar>"
    using n digits_val_nat_digits [of 0 "nat \<bar>x\<bar>"] by (auto simp: pd_def is_digit_def)
  have "exp_str x = (if x < 0 then 45 else 43) # pd"
    using n by (simp add: exp_str_def pd_def)
  then show ?thesis
    using pd rest num_end_digit_end [OF rest]
    by (auto simp: match_exponent_def exp_sign_def takeWhile_digits dropWhile_digits)
qed

lemma match_number_frac:
  assumes "list_all is_digit ip" and "ip \<noteq> []" and "hd ip = 48 \<Longrightarrow> ip = [48]"
    and "list_all is_digit fp" and "fp \<noteq> []" and "num_end rest"
  shows "match_number ((if neg then [45] else []) @ ip @ 46 # fp @ rest) = Inr (make_float neg ip fp 0, rest)"
proof -
  obtain c ip' where ip: "ip = c # ip'" using assms(2) by (cases ip) auto
  have c: "is_digit c" using assms(1) ip by simp
  have "frac_part (46 # fp @ rest) = (fp, rest)"
    using assms(4,5) num_end_digit_end [OF assms(6)] by (rule frac_part_digits)
  then show ?thesis
    using assms c ip
    by (cases neg) (auto simp: match_number_def is_digit_def takeWhile_digits dropWhile_digits
        match_exponent_end)
qed

lemma match_number_exp:
  assumes "is_digit d" and "list_all is_digit fp" and "num_end rest"
  shows "match_number ((if neg then [45] else []) @ d # (if fp = [] then [] else 46 # fp) @ 101 # exp_str x @ rest)
    = Inr (make_float neg [d] fp x, rest)"
  using assms match_exponent_exp_str [OF assms(3), of x] frac_part_e
    frac_part_digits [of fp "101 # exp_str x @ rest"]
  by (cases neg; cases "fp = []") (auto simp: match_number_def is_digit_def)

lemma norm_dec_normal: "c mod 10 \<noteq> 0 \<Longrightarrow> norm_dec c e = (c, e)"
  by (subst norm_dec.simps) auto

lemma norm_dec_zero [simp]: "norm_dec 0 e = (0, 0)"
  by (subst norm_dec.simps) simp

lemma norm_dec_pow: "0 < c \<Longrightarrow> norm_dec (c * 10 ^ k) e = norm_dec c (e + int k)"
proof (induction k arbitrary: e)
  case 0
  then show ?case by simp
next
  case (Suc k)
  have "norm_dec (c * 10 ^ Suc k) e = norm_dec (c * 10 ^ k) (e + 1)"
    using Suc.prems by (subst norm_dec.simps) simp
  with Suc show ?case by (simp add: add.assoc)
qed

lemma digits_val_zeros [simp]: "digits_val v (replicate k 48) = v * 10 ^ k"
  by (induction k arbitrary: v) (simp_all add: algebra_simps)

lemma digits_val_lead_zeros: "digits_val 0 (replicate k 48 @ xs) = digits_val 0 xs"
  by (simp add: digits_val_append)

lemma match_number_float:
  assumes wf: "float_wf (FFinite neg c e)" and rest: "num_end rest"
  shows "match_number (float_str (FFinite neg c e) @ rest) = Inr (PFloat (FFinite neg c e), rest)"
proof -
  obtain d ds where nd: "nat_digits c = d # ds" "is_digit d" "list_all is_digit ds" "d = 48 \<longleftrightarrow> c = 0"
    "c = 0 \<longrightarrow> ds = []"
    using nat_digits_Cons by blast
  have cval: "digits_val 0 (d # ds) = c"
    using digits_val_nat_digits [of 0 c] nd(1) by simp
  have norm: "norm_dec c e = (c, e)"
    using wf by (cases "c = 0") (simp_all add: norm_dec_normal)
  define n where "n = int (Suc (length ds))"
  define decpt where "decpt = n + e"
  have sign: "float_str (FFinite neg c e) @ rest = (if neg then [45] else []) @ repr_finite c e @ rest"
    by simp
  have c0: "c = 0 \<Longrightarrow> decpt = 1"
    using wf nd(5) by (simp add: decpt_def n_def)
  consider (exp) "decpt \<le> -4 \<or> 16 < decpt" | (small) "\<not> (decpt \<le> -4 \<or> 16 < decpt)" "decpt \<le> 0"
    | (int) "\<not> (decpt \<le> -4 \<or> 16 < decpt)" "0 < decpt" "n \<le> decpt"
    | (mid) "\<not> (decpt \<le> -4 \<or> 16 < decpt)" "0 < decpt" "decpt < n"
    by linarith
  then show ?thesis
  proof cases
    case exp
    then have "repr_finite c e = d # (if ds = [] then [] else 46 # ds) @ 101 # exp_str (decpt - 1)"
      by (simp add: repr_finite_def nd(1) decpt_def n_def)
    moreover have "make_float neg [d] ds (decpt - 1) = PFloat (FFinite neg c e)"
      using cval norm by (simp add: make_float_def decpt_def n_def)
    ultimately show ?thesis
      using match_number_exp [OF nd(2,3) rest, of neg "decpt - 1"] by simp
  next
    case small
    with c0 have "c \<noteq> 0" by auto
    define fp where "fp = replicate (nat (- decpt)) 48 @ d # ds"
    have "repr_finite c e @ rest = [48] @ 46 # fp @ rest"
      using small by (simp add: repr_finite_def nd(1) decpt_def n_def fp_def)
    moreover have "list_all is_digit fp"
      using nd(2,3) by (auto simp: fp_def is_digit_def list_all_iff)
    moreover have "make_float neg [48] fp 0 = PFloat (FFinite neg c e)"
      using cval norm small digits_val_lead_zeros [of "Suc (nat (- decpt))" "d # ds"]
      by (simp add: make_float_def fp_def decpt_def n_def)
    ultimately show ?thesis
      using match_number_frac [of "[48]" fp rest neg] rest by (simp add: is_digit_def fp_def)
  next
    case int
    define k where "k = nat (decpt - n)"
    define ip where "ip = d # ds @ replicate k 48"
    have "repr_finite c e @ rest = ip @ 46 # [48] @ rest"
      using int by (simp add: repr_finite_def nd(1) decpt_def n_def ip_def k_def)
    moreover have "list_all is_digit ip"
      using nd(2,3) by (auto simp: ip_def is_digit_def list_all_iff)
    moreover have "hd ip = 48 \<Longrightarrow> ip = [48]"
      using nd(4,5) c0 by (simp add: ip_def k_def decpt_def n_def)
    moreover have "make_float neg ip [48] 0 = PFloat (FFinite neg c e)"
    proof (cases "c = 0")
      case True
      then show ?thesis
        using wf nd(1,5) cval by (simp add: make_float_def ip_def digits_val_append)
    next
      case False
      have "digits_val 0 (ip @ [48]) = c * 10 ^ Suc k"
        using cval by (simp add: ip_def digits_val_append)
      moreover have "int k = e" using int by (simp add: k_def decpt_def)
      ultimately show ?thesis
        using norm norm_dec_pow [of c "Suc k" "-1"] False by (simp add: make_float_def)
    qed
    ultimately show ?thesis
      using match_number_frac [of ip "[48]" rest neg] rest by (simp add: is_digit_def ip_def)
  next
    case mid
    with c0 nd(5) have "c \<noteq> 0" by (auto simp: n_def)
    define ip where "ip = take (nat decpt) (d # ds)"
    define fp where "fp = drop (nat decpt) (d # ds)"
    have "repr_finite c e @ rest = ip @ 46 # fp @ rest"
      using mid by (simp add: repr_finite_def nd(1) decpt_def n_def ip_def fp_def Let_def)
    moreover have "list_all is_digit ip" "list_all is_digit fp"
      using nd(2,3) list_all_take_drop [of is_digit "d # ds" "nat decpt"] by (simp_all add: ip_def fp_def)
    moreover have "ip \<noteq> []" "hd ip \<noteq> 48" "fp \<noteq> []"
      using mid nd(4) \<open>c \<noteq> 0\<close> by (auto simp: ip_def fp_def n_def)
    moreover have "make_float neg ip fp 0 = PFloat (FFinite neg c e)"
      using cval norm mid by (simp add: make_float_def ip_def fp_def decpt_def n_def)
    ultimately show ?thesis
      using match_number_frac [of ip fp rest neg] rest by simp
  qed
qed

subsection \<open>Values\<close>

lemma skip_ws_Cons_not_ws [simp]: "\<not> is_ws c \<Longrightarrow> skip_ws (c # r) = c # r"
  by (simp add: skip_ws_def)

lemma skip_ws_space [simp]: "skip_ws (32 # r) = skip_ws r"
  by (simp add: skip_ws_def is_ws_def)

lemma int_repr_start: "\<exists>c cs. int_repr i = c # cs \<and> (is_digit c \<or> c = 45 \<and> cs \<noteq> [] \<and> is_digit (hd cs))"
  using nat_digits_Cons [of "nat \<bar>i\<bar>"] by (auto simp: int_repr_def)

lemma repr_finite_start: "\<exists>c r. repr_finite m e = c # r \<and> is_digit c"
proof -
  obtain d ds where "nat_digits m = d # ds" "is_digit d"
    using nat_digits_Cons by blast
  then show ?thesis
    by (auto simp: repr_finite_def Let_def take_Cons' is_digit_def)
qed

lemma float_str_finite_start:
  "\<exists>c cs. float_str (FFinite neg m e) = c # cs \<and> (is_digit c \<or> c = 45 \<and> cs \<noteq> [] \<and> is_digit (hd cs))"
  using repr_finite_start [of m e] by (cases neg) auto

lemma scan_once_number:
  assumes "is_digit c \<or> c = 45 \<and> cs \<noteq> [] \<and> is_digit (hd cs)"
  shows "scan_once (Suc n) (c # cs) = match_number (c # cs)"
proof -
  have ne: "c \<noteq> 34" "c \<noteq> 123" "c \<noteq> 91"
    using assms by (auto simp: is_digit_def)
  have lits: "take 4 (c # cs) \<noteq> ustr ''null''" "take 4 (c # cs) \<noteq> ustr ''true''"
    "take 5 (c # cs) \<noteq> ustr ''false''" "take 3 (c # cs) \<noteq> ustr ''NaN''"
    "take 8 (c # cs) \<noteq> ustr ''Infinity''" "take 9 (c # cs) \<noteq> ustr ''-Infinity''"
    using assms by (auto simp: is_digit_def ustr_def neq_Nil_conv)
  show ?thesis
    using ne lits by simp blast
qed

lemma json_encode_start: "\<exists>c cs. json_encode v = c # cs \<and> \<not> is_ws c \<and> c \<noteq> 93"
proof (cases v)
  case (PInt i)
  then show ?thesis using int_repr_start [of i] by (auto simp: is_ws_def is_digit_def)
next
  case (PFloat f)
  then show ?thesis
  proof (cases f)
    case (FFinite neg m e)
    then show ?thesis
      using PFloat float_str_finite_start [of neg m e] by (auto simp: is_ws_def is_digit_def)
  qed (auto simp: is_ws_def ustr_def)
qed (auto simp: is_ws_def ustr_def encode_basestring_ascii_def)

lemma skip_ws_json_encode [simp]: "skip_ws (json_encode v @ r) = json_encode v @ r"
  using json_encode_start [of v] by auto

lemma length_json_encode_pos: "0 < length (json_encode v)"
  using json_encode_start [of v] by auto

lemma sep_join_Cons2: "xs \<noteq> [] \<Longrightarrow> sep_join (x # xs) = x @ [44, 32] @ sep_join xs"
  by (cases xs) simp_all

lemma sep_join_Cons_prefix: "\<exists>t. sep_join (x # xs) = x @ t"
  by (cases xs) auto

lemma hd_sep_join_json: "hd (sep_join (json_encode y # ys) @ r) \<noteq> 93"
  using json_encode_start [of y] sep_join_Cons_prefix [of "json_encode y" ys] by auto

lemma skip_ws_sep_join_json [simp]:
  "skip_ws (sep_join (json_encode y # ys) @ r) = sep_join (json_encode y # ys) @ r"
  using sep_join_Cons_prefix [of "json_encode y" ys] by auto

lemma num_end_Cons: "c \<in> {44, 93, 125} \<Longrightarrow> num_end (c # r)"
  by (auto simp: num_end_def is_digit_def)

lemma parse_array_json:
  assumes IH: "\<And>x n rest. x \<in> set xs \<Longrightarrow> json_rt_wf x \<Longrightarrow> num_end rest \<Longrightarrow>
      length (json_encode x) \<le> n \<Longrightarrow> scan_once n (json_encode x @ rest) = Inr (x, rest)"
    and "xs \<noteq> []" and "\<forall>x\<in>set xs. json_rt_wf x" and "length (sep_join (map json_encode xs)) < n"
  shows "parse_array n (sep_join (map json_encode xs) @ 93 # rest) acc = Inr (PList (acc @ xs), rest)"
  using assms
proof (induction xs arbitrary: n acc)
  case Nil
  then show ?case by simp
next
  case (Cons x xs)
  obtain m where n: "n = Suc m" using Cons.prems(4) by (cases n) auto
  show ?case
  proof (cases "xs = []")
    case True
    have "scan_once m (json_encode x @ 93 # rest) = Inr (x, 93 # rest)"
      using Cons.prems True n by (intro Cons.prems(1)) (auto intro: num_end_Cons)
    with True n show ?thesis by (simp add: is_ws_def)
  next
    case False
    have len: "length (sep_join (map json_encode xs)) < m"
      using Cons.prems(4) False n by (simp add: sep_join_Cons2)
    have "scan_once m (json_encode x @ 44 # 32 # sep_join (map json_encode xs) @ 93 # rest)
        = Inr (x, 44 # 32 # sep_join (map json_encode xs) @ 93 # rest)"
      using Cons.prems False n by (intro Cons.prems(1)) (auto simp: sep_join_Cons2 intro: num_end_Cons)
    moreover have "skip_ws (sep_join (map json_encode xs) @ 93 # rest) = sep_join (map json_encode xs) @ 93 # rest"
      using False by (cases xs) simp_all
    moreover have "parse_array m (sep_join (map json_encode xs) @ 93 # rest) (acc @ [x])
        = Inr (PList (acc @ x # xs), rest)"
      using Cons.IH [OF _ False _ len, of "acc @ [x]"] Cons.prems(1,3) by simp
    ultimately show ?thesis
      using False n by (simp add: sep_join_Cons2 expect_char_def is_ws_def)
  qed
qed

lemma skip_ws_sep_join_kv [simp]: "skip_ws (sep_join (enc_kv kv # kvs) @ r) = sep_join (enc_kv kv # kvs) @ r"
  using sep_join_Cons_prefix [of "enc_kv kv" kvs] by (auto simp: enc_kv_def encode_basestring_ascii_def is_ws_def)

lemma hd_sep_join_kv: "hd (sep_join (enc_kv kv # kvs) @ r) = 34"
  using sep_join_Cons_prefix [of "enc_kv kv" kvs] by (auto simp: enc_kv_def encode_basestring_ascii_def)

lemma parse_object_json:
  assumes IH: "\<And>kv n rest. kv \<in> set d \<Longrightarrow> json_rt_wf (snd kv) \<Longrightarrow> num_end rest \<Longrightarrow>
      length (json_encode (snd kv)) \<le> n \<Longrightarrow> scan_once n (json_encode (snd kv) @ rest) = Inr (snd kv, rest)"
    and "d \<noteq> []" and "\<forall>kv\<in>set d. valid_ustr (fst kv) \<and> no_split_pair (fst kv) \<and> json_rt_wf (snd kv)"
    and "distinct (map fst (acc @ d))" and "length (sep_join (map enc_kv d)) < n"
  shows "parse_object n (sep_join (map enc_kv d) @ 125 # rest) acc = Inr (PDict (acc @ d), rest)"
  using assms
proof (induction d arbitrary: n acc)
  case Nil
  then show ?case by simp
next
  case (Cons kv d)
  obtain k v where kv: "kv = (k, v)" by (cases kv)
  obtain m where n: "n = Suc m" using Cons.prems(5) by (cases n) auto
  define tail where "tail = (if d = [] then [] else [44, 32] @ sep_join (map enc_kv d)) @ 125 # rest"
  have s: "sep_join (map enc_kv (kv # d)) @ 125 # rest
      = 34 # concat (map escape_char k) @ 34 # 58 # 32 # json_encode v @ tail"
    by (cases d) (simp_all add: tail_def kv enc_kv_def encode_basestring_ascii_def)
  have key: "scanstring b [] (concat (map escape_char k) @ 34 # 58 # 32 # json_encode v @ tail)
      = Inr (k, 58 # 32 # json_encode v @ tail)" for b
    using Cons.prems(3) kv scanstring_escaped [of k b "[]"] by simp
  have "num_end tail" by (cases d) (simp_all add: tail_def num_end_Cons)
  moreover have "length (json_encode v) \<le> m"
  proof -
    obtain t where "sep_join (enc_kv kv # map enc_kv d) = enc_kv kv @ t"
      using sep_join_Cons_prefix by blast
    then have "length (enc_kv kv) < n" using Cons.prems(5) by simp
    then show ?thesis using n by (simp add: kv enc_kv_def)
  qed
  ultimately have val: "scan_once m (json_encode v @ tail) = Inr (v, tail)"
    using Cons.prems(1) [of kv] Cons.prems(3) kv by simp
  have fresh: "dict_set acc k v = acc @ [(k, v)]"
    using Cons.prems(4) kv by (intro dict_set_fresh) auto
  show ?case
  proof (cases "d = []")
    case True
    with s key val fresh n kv show ?thesis
      by (simp add: tail_def expect_char_def is_ws_def)
  next
    case False
    have len: "length (sep_join (map enc_kv d)) < m"
      using Cons.prems(5) False n by (simp add: sep_join_Cons2)
    have "parse_object m (sep_join (map enc_kv d) @ 125 # rest) (acc @ [(k, v)]) = Inr (PDict (acc @ kv # d), rest)"
      using Cons.IH [OF _ False _ _ len, of "acc @ [(k, v)]"] Cons.prems(1,3,4) kv by simp
    moreover obtain kv' d' where "d = kv' # d'" using False by (cases d) auto
    ultimately show ?thesis
      using s key val fresh n kv False by (simp add: tail_def expect_char_def is_ws_def)
  qed
qed

lemma scan_once_json_encode:
  "json_rt_wf v \<Longrightarrow> num_end rest \<Longrightarrow> length (json_encode v) \<le> n \<Longrightarrow>
     scan_once n (json_encode v @ rest) = Inr (v, rest)"
proof (induction v arbitrary: n rest rule: json_encode.induct)
  case 1
  then obtain m where "n = Suc m" by (cases n) (auto simp: ustr_def)
  then show ?case by (simp add: ustr_def)
next
  case (2 b)
  then obtain m where "n = Suc m" using length_json_encode_pos [of "PBool b"] by (cases n) auto
  then show ?case by (cases b) (simp_all add: ustr_def)
next
  case (3 i)
  obtain m where n: "n = Suc m" using 3 length_json_encode_pos [of "PInt i"] by (cases n) auto
  obtain c cs where start: "int_repr i = c # cs" "is_digit c \<or> c = 45 \<and> cs \<noteq> [] \<and> is_digit (hd cs)"
    using int_repr_start by blast
  then have "scan_once (Suc m) (c # cs @ rest) = match_number (c # cs @ rest)"
    by (intro scan_once_number) auto
  then show ?case
    using n start(1) match_number_int [OF "3.prems"(2) "3.prems"(1)] by (simp del: scan_once.simps)
next
  case (4 f)
  obtain m where n: "n = Suc m" using 4 length_json_encode_pos [of "PFloat f"] by (cases n) auto
  show ?case
  proof (cases f)
    case (FFinite neg c e)
    obtain x xs where start: "float_str f = x # xs" "is_digit x \<or> x = 45 \<and> xs \<noteq> [] \<and> is_digit (hd xs)"
      using float_str_finite_start [of neg c e] FFinite by blast
    then have "scan_once (Suc m) (x # xs @ rest) = match_number (x # xs @ rest)"
      by (intro scan_once_number) auto
    then show ?thesis
      using n FFinite "4.prems" start(1) match_number_float [of neg c e rest]
      by (simp del: scan_once.simps float_str.simps)
  next
    case (FInf neg)
    then show ?thesis using n by (cases neg) (simp_all add: ustr_def)
  next
    case FNaN
    then show ?thesis using n by (simp add: ustr_def)
  qed
next
  case (5 s)
  obtain m where n: "n = Suc m" using 5 length_json_encode_pos [of "PStr s"] by (cases n) auto
  then show ?case
    using "5.prems" scanstring_escaped [of s _ "[]" rest] by (simp add: encode_basestring_ascii_def)
next
  case (6 xs)
  obtain m where n: "n = Suc m" using "6.prems"(3) by (cases n) auto
  show ?case
  proof (cases "xs = []")
    case True
    then show ?thesis using n by (simp add: is_ws_def)
  next
    case False
    have "parse_array m (sep_join (map json_encode xs) @ 93 # rest) [] = Inr (PList xs, rest)"
      using parse_array_json [of xs m rest "[]"] "6.IH" "6.prems" n False by simp
    moreover obtain y ys where "xs = y # ys" using False by (cases xs) auto
    ultimately show ?thesis using n hd_sep_join_json [of y "map json_encode ys"]
      by (simp add: is_ws_def Let_def del: sep_join.simps)
  qed
next
  case (7 d)
  obtain m where n: "n = Suc m" using "7.prems"(3) by (cases n) auto
  have enc: "json_encode (PDict d) = 123 # sep_join (map enc_kv d) @ [125]"
    by (simp add: enc_kv_def [abs_def])
  show ?case
  proof (cases "d = []")
    case True
    then show ?thesis using n by (simp add: is_ws_def)
  next
    case False
    have "parse_object m (sep_join (map enc_kv d) @ 125 # rest) [] = Inr (PDict d, rest)"
      using parse_object_json [where d = d and n = m and rest = rest and acc = "[]"] "7.IH" "7.prems" n False enc by simp
    moreover obtain kv d' where "d = kv # d'" using False by (cases d) auto
    ultimately show ?thesis using n enc hd_sep_join_kv [of kv "map enc_kv d'"]
      by (simp add: is_ws_def Let_def del: sep_join.simps json_encode.simps)
  qed
qed

text \<open>The whole text: \<open>json.loads(json.dumps(v)) == v\<close>.\<close>

lemma json_decode_json_encode: "json_rt_wf v \<Longrightarrow> json_decode (json_encode v) = Inr v"
proof -
  assume wf: "json_rt_wf v"
  have "scan_once (2 * length (json_encode v) + 1) (json_encode v @ []) = Inr (v, [])"
    using wf by (rule scan_once_json_encode) (simp_all add: num_end_def)
  moreover have "skip_ws (json_encode v) = json_encode v"
    using skip_ws_json_encode [of v "[]"] by simp
  ultimately show ?thesis by (simp add: json_decode_def skip_ws_def)
qed

lemma json_loads_ascii: "is_ascii s \<Longrightarrow> json_loads (PStr s) = json_decode s"
  by (cases s) simp_all

subsection \<open>The decoder's values are well formed\<close>

text \<open>
  On Unicode text (code points below \<open>0x110000\<close>, no surrogate), which is what a
  WebSocket text frame decodes to, every value \<open>json.loads\<close> returns is one the
  encoder writes unambiguously (\<open>json_loads_wf\<close>). A \<open>\\u\<close> escape can still
  produce a lone surrogate, but never a high one directly followed by a low one:
  the scanner joins such a pair of escapes into one character
  (\<open>scan_escape_high\<close>, \<open>scan_escape_low\<close>).
\<close>

lemma unicode_text_suffix: "suffix r s \<Longrightarrow> unicode_text s \<Longrightarrow> unicode_text r"
  by (auto simp: unicode_text_def suffix_def)

lemma hex_acc_bound: "hex_acc v ds = Some u \<Longrightarrow> u < (v + 1) * 16 ^ length ds"
proof (induction v ds rule: hex_acc.induct)
  case (2 v d ds)
  then obtain x where x: "hexval d = Some x" and u: "hex_acc (v * 16 + x) ds = Some u"
    by (auto split: option.splits)
  have "x < 16" using x by (auto simp: hexval_def split: if_splits)
  then have "(v * 16 + x + 1) * 16 ^ length ds \<le> (v + 1) * 16 ^ Suc (length ds)"
    by (simp add: algebra_simps)
  with "2.IH" [OF x u] show ?case by simp
qed simp

lemma hex4_val_bound: "hex4_val h = Some u \<Longrightarrow> u < 0x10000"
proof -
  assume "hex4_val h = Some u"
  then have "u < 16 ^ length (take 4 h)"
    using hex_acc_bound [of 0 "take 4 h" u] by (simp add: hex4_val_def)
  moreover have "(16::nat) ^ length (take 4 h) \<le> 16 ^ 4"
    by (rule power_increasing) simp_all
  ultimately show ?thesis by simp
qed
  
lemma join_surrogates_range: "0x10000 \<le> join_surrogates hi lo \<and> join_surrogates hi lo < 0x110000"
proof -
  have "hi mod 1024 * 1024 \<le> 1023 * 1024" and "lo mod 1024 \<le> 1023"
    by simp_all
  then show ?thesis by (simp add: join_surrogates_def)
qed

lemma simple_escape_small: "simple_escape e = Some ch \<Longrightarrow> ch < 128"
  by (auto simp: simple_escape_def split: if_splits)

lemma join_surrogates_not_surrogate:
  "\<not> is_high_surrogate (join_surrogates hi lo)" "\<not> is_low_surrogate (join_surrogates hi lo)"
  using join_surrogates_range [of hi lo] by (simp_all add: is_high_surrogate_def is_low_surrogate_def)

lemma simple_escape_not_surrogate:
  "simple_escape e = Some ch \<Longrightarrow> \<not> is_high_surrogate ch \<and> \<not> is_low_surrogate ch"
  by (auto simp: is_high_surrogate_def is_low_surrogate_def dest!: simple_escape_small)

lemma scan_escape_valid: "scan_escape e h = Inr (ch, r) \<Longrightarrow> ch < 0x110000"
  using join_surrogates_range
  by (auto simp: scan_escape_def Let_def dest!: simple_escape_small hex4_val_bound
      split: if_splits option.splits)

text \<open>A decoded \<open>\\u\<close> escape that is not half of a joined pair.\<close>

lemma scan_escape_u_single:
  assumes "scan_escape e h = Inr (ch, r)" and "is_high_surrogate ch \<or> is_low_surrogate ch"
  shows "e = 117 \<and> 4 < length h \<and> hex4_val h = Some ch \<and> r = drop 4 h \<and>
    (is_high_surrogate ch \<and> 6 < length r \<and> r ! 0 = 92 \<and> r ! 1 = 117 \<longrightarrow>
       (\<exists>u2. hex4_val (drop 2 r) = Some u2 \<and> \<not> is_low_surrogate u2))"
  using assms join_surrogates_not_surrogate simple_escape_not_surrogate
  by (auto simp: scan_escape_def Let_def split: if_splits option.splits)

lemma scan_escape_low:
  "scan_escape e h = Inr (ch, r) \<Longrightarrow> is_low_surrogate ch \<Longrightarrow> starts_low_escape (92 # e # h)"
  using scan_escape_u_single [of e h ch r] by (simp add: starts_low_escape_def)

lemma scan_escape_high:
  assumes "scan_escape e h = Inr (ch, r)" and "is_high_surrogate ch"
  shows "\<not> starts_low_escape r"
proof
  assume low: "starts_low_escape r"
  then obtain h' u where r: "r = 92 # 117 # h'" "4 < length h'" "hex4_val h' = Some u" "is_low_surrogate u"
    by (auto simp: starts_low_escape_def split: list.splits option.splits)
  with scan_escape_u_single [OF assms(1)] assms(2) show False by auto
qed

lemma no_split_pair_snoc:
  "no_split_pair (xs @ [c]) \<longleftrightarrow> no_split_pair xs \<and> (xs \<noteq> [] \<and> is_high_surrogate (last xs) \<longrightarrow> \<not> is_low_surrogate c)"
  by (induction xs rule: no_split_pair.induct) auto

lemma scanstring_wf:
  "scanstring b acc s = Inr (str, r) \<Longrightarrow> unicode_text s \<Longrightarrow> valid_ustr acc \<Longrightarrow> no_split_pair acc \<Longrightarrow>
   (acc \<noteq> [] \<Longrightarrow> is_high_surrogate (last acc) \<Longrightarrow> \<not> starts_low_escape s) \<Longrightarrow>
   valid_ustr str \<and> no_split_pair str"
proof (induction b acc s rule: scanstring.induct)
  case (2 b acc c cs)
  show ?case
  proof (cases "c = QUOTE \<or> c \<noteq> BACKSLASH")
    case True
    show ?thesis
    proof (cases "c = QUOTE")
      case True
      with "2.prems" show ?thesis by simp
    next
      case False
      with True "2.prems"(1) have raw: "c \<noteq> QUOTE" "c \<noteq> BACKSLASH" "\<not> c \<le> 0x1f"
        and rest: "scanstring b (acc @ [c]) cs = Inr (str, r)"
        by (auto split: if_splits)
      have c: "c < 0x110000" "\<not> is_high_surrogate c" "\<not> is_low_surrogate c" and "unicode_text cs"
        using "2.prems"(2) by (simp_all add: unicode_text_def)
      then show ?thesis
        using "2.IH"(2) [OF raw rest] "2.prems"(3,4) by (simp add: no_split_pair_snoc)
    qed
  next
    case False
    then obtain e h ch r' where cs: "cs = e # h" and esc: "scan_escape e h = Inr (ch, r')"
      and rest: "scanstring b (acc @ [ch]) r' = Inr (str, r)" and c: "c = BACKSLASH"
      using "2.prems"(1) by (auto simp: bind_exc_eq_Inr split: list.splits)
    have "unicode_text r'"
      using "2.prems"(2) cs suffix_scan_escape [OF esc]
      by (auto simp: unicode_text_def suffix_def)
    moreover have "no_split_pair (acc @ [ch])"
      using "2.prems"(4,5) scan_escape_low [OF esc] c cs by (auto simp: no_split_pair_snoc)
    moreover have "valid_ustr (acc @ [ch])"
      using "2.prems"(3) scan_escape_valid [OF esc] by simp
    ultimately show ?thesis
      using "2.IH"(1) [OF _ _ cs] esc rest scan_escape_high [OF esc] c by fastforce
  qed
qed simp

lemma norm_dec_wf: "norm_dec c e = (c', e') \<Longrightarrow> float_wf (FFinite neg c' e')"
proof (induction c e rule: norm_dec.induct)
  case (1 c e)
  then show ?case
    by (subst (asm) norm_dec.simps) (auto split: if_splits)
qed

lemma make_float_wf: "json_rt_wf (make_float neg ip fp ex)"
  using norm_dec_wf [of "digits_val 0 (ip @ fp)" "ex - int (length fp)", of _ _ neg]
  by (simp add: make_float_def split: prod.splits)

lemma length_nat_digits_le: "n < 10 ^ k \<Longrightarrow> 0 < k \<Longrightarrow> length (nat_digits n) \<le> k"
proof (induction n arbitrary: k rule: nat_digits.induct)
  case (1 n)
  show ?case
  proof (cases "n < 10")
    case True
    then show ?thesis using "1.prems"(2) by (simp add: nat_digits.simps)
  next
    case False
    obtain k' where k: "k = Suc k'" using "1.prems"(2) by (cases k) auto
    have "0 < k'"
    proof (rule ccontr)
      assume "\<not> 0 < k'"
      then show False using "1.prems"(1) False k by simp
    qed
    moreover have "n div 10 < 10 ^ k'" using "1.prems"(1) k by (simp add: less_mult_imp_div_less mult.commute)
    ultimately have "length (nat_digits (n div 10)) \<le> k'" using "1.IH" False by simp
    then show ?thesis using False k by (simp add: nat_digits.simps [of n])
  qed
qed

lemma digits_val_less: "list_all is_digit ds \<Longrightarrow> digits_val v ds < (v + 1) * 10 ^ length ds"
proof (induction ds arbitrary: v)
  case (Cons d ds)
  have h: "10 * v + (d - 48) + 1 \<le> 10 * (v + 1)"
    using Cons.prems by (clarsimp simp: is_digit_def) arith
  have "digits_val v (d # ds) < (10 * v + (d - 48) + 1) * 10 ^ length ds"
    using Cons by simp
  also have "\<dots> \<le> (10 * (v + 1)) * 10 ^ length ds"
    by (rule mult_right_mono [OF h]) simp
  also have "\<dots> = (v + 1) * 10 ^ length (d # ds)"
    by (simp add: algebra_simps)
  finally show ?case .
qed simp

lemma length_nat_digits_val:
  "list_all is_digit (d # ds) \<Longrightarrow> length (nat_digits (digits_val (d - 48) ds)) \<le> Suc (length ds)"
proof -
  assume ds: "list_all is_digit (d # ds)"
  then have "digits_val (d - 48) ds < (d - 48 + 1) * 10 ^ length ds" using digits_val_less by simp
  also have "d - 48 + 1 \<le> 10" using ds by (clarsimp simp: is_digit_def) arith
  then have "(d - 48 + 1) * 10 ^ length ds \<le> 10 ^ Suc (length ds)" by simp
  finally show ?thesis by (rule length_nat_digits_le) simp
qed

lemma list_all_takeWhile: "list_all P (takeWhile P xs)"
  by (induction xs) auto

lemma nat_digits_0: "nat_digits 0 = [48]"
  by (simp add: nat_digits.simps)

lemma match_number_int_wf:
  "match_number s = Inr (PInt i, r) \<Longrightarrow> length (nat_digits (nat \<bar>i\<bar>)) \<le> int_max_str_digits"
  unfolding match_number_def Let_def make_float_def
  apply (auto simp: split_def nat_digits_0 split: list.splits if_splits prod.splits option.splits)
  apply (rule le_trans [OF length_nat_digits_val]; simp add: is_digit_def list_all_takeWhile)+
  done

lemma match_number_wf:
  assumes "match_number s = Inr (v, r)"
  shows "json_rt_wf v"
proof (cases "\<exists>i. v = PInt i")
  case True
  then show ?thesis using match_number_int_wf assms by auto
next
  case False
  then show ?thesis using assms
    by (auto simp: match_number_def Let_def make_float_wf split: list.splits if_splits prod.splits option.splits)
qed

lemma scan_strict_suffix_once: "scan_once n s = Inr (v, r) \<Longrightarrow> strict_suffix r s"
  using scan_strict_suffix [of n] by blast

lemma unicode_text_strict: "strict_suffix r s \<Longrightarrow> unicode_text s \<Longrightarrow> unicode_text r"
  by (auto intro: unicode_text_suffix simp: strict_suffix_def)

lemma json_rt_wf_dict_set:
  assumes "json_rt_wf (PDict d)" and "valid_ustr k" and "no_split_pair k" and "json_rt_wf v"
  shows "json_rt_wf (PDict (dict_set d k v))"
  using assms set_dict_set [of d k v] by auto

lemma scanstring_key_wf:
  "scanstring b [] s = Inr (k, r) \<Longrightarrow> unicode_text s \<Longrightarrow> valid_ustr k \<and> no_split_pair k"
  using scanstring_wf [of b "[]" s k r] by simp

lemma scan_wf:
  "(\<forall>s v r. scan_once n s = Inr (v, r) \<longrightarrow> unicode_text s \<longrightarrow> json_rt_wf v) \<and>
   (\<forall>s d v r. parse_object n s d = Inr (v, r) \<longrightarrow> unicode_text s \<longrightarrow> json_rt_wf (PDict d) \<longrightarrow> json_rt_wf v) \<and>
   (\<forall>s xs v r. parse_array n s xs = Inr (v, r) \<longrightarrow> unicode_text s \<longrightarrow> json_rt_wf (PList xs) \<longrightarrow> json_rt_wf v)"
proof (induction n)
  case 0
  then show ?case by simp
next
  case (Suc n)
  then have sc: "scan_once n s = Inr (v, r) \<Longrightarrow> unicode_text s \<Longrightarrow> json_rt_wf v"
    and po: "parse_object n s d = Inr (v, r) \<Longrightarrow> unicode_text s \<Longrightarrow> json_rt_wf (PDict d) \<Longrightarrow> json_rt_wf v"
    and pa: "parse_array n s xs = Inr (v, r) \<Longrightarrow> unicode_text s \<Longrightarrow> json_rt_wf (PList xs) \<Longrightarrow> json_rt_wf v"
    for s d xs v r
    by blast+
  have ws: "unicode_text (c # cs) \<Longrightarrow> unicode_text (skip_ws cs)" for c cs
    using unicode_text_strict [OF strict_suffix_skip_ws_Cons] .
  show ?case
  proof (intro conjI allI impI)
    fix s v r assume "scan_once (Suc n) s = Inr (v, r)" and u: "unicode_text s"
    then show "json_rt_wf v"
    proof (cases rule: scan_once_SucE)
      case (str cs str)
      then show ?thesis using scanstring_key_wf [of "length s" cs str r] u by (simp add: unicode_text_def)
    next
      case (obj cs)
      then show ?thesis using po [OF obj(2)] ws u by simp
    next
      case (arr cs)
      then show ?thesis using pa [OF arr(2)] ws u by simp
    next
      case num
      then show ?thesis by (rule match_number_wf)
    qed auto
  next
    fix s d v r assume "parse_object (Suc n) s d = Inr (v, r)" and u: "unicode_text s"
      and wf: "json_rt_wf (PDict d)"
    then show "json_rt_wf v"
    proof (cases rule: parse_object_SucE)
      case (last s1 k r0 r1 v0 r2)
      have "valid_ustr k \<and> no_split_pair k"
        using scanstring_key_wf [OF last(2)] unicode_text_strict [OF strict_suffix_expect_char [OF last(1)] u] .
      moreover have "json_rt_wf v0"
        using sc [OF last(4)] unicode_text_strict [OF object_member_rest [OF last(1-3)] u]
          unicode_text_suffix [OF suffix_skip_ws] by blast
      ultimately show ?thesis using last(6) wf json_rt_wf_dict_set by blast
    next
      case (more s1 k r0 r1 v0 r2 r3)
      have "valid_ustr k \<and> no_split_pair k"
        using scanstring_key_wf [OF more(2)] unicode_text_strict [OF strict_suffix_expect_char [OF more(1)] u] .
      moreover have u1: "unicode_text (skip_ws r1)"
        using unicode_text_strict [OF object_member_rest [OF more(1-3)] u] unicode_text_suffix [OF suffix_skip_ws]
        by blast
      moreover have "json_rt_wf v0" using sc [OF more(4) u1] .
      moreover have "unicode_text (skip_ws r3)"
        using strict_suffix_after [OF strict_suffix_expect_char [OF more(5)] scan_strict_suffix_once [OF more(4)]]
          u1 unicode_text_strict unicode_text_suffix [OF suffix_skip_ws] by blast
      ultimately show ?thesis using po [OF more(6)] wf json_rt_wf_dict_set by blast
    qed
  next
    fix s xs v r assume "parse_array (Suc n) s xs = Inr (v, r)" and u: "unicode_text s"
      and wf: "json_rt_wf (PList xs)"
    then show "json_rt_wf v"
    proof (cases rule: parse_array_SucE)
      case (last v0 r0)
      then show ?thesis using sc [OF last(1) u] wf by auto
    next
      case (more v0 r0 r1)
      have "unicode_text (skip_ws r1)"
        using strict_suffix_after [OF strict_suffix_expect_char [OF more(2)] scan_strict_suffix_once [OF more(1)]]
          u unicode_text_strict unicode_text_suffix [OF suffix_skip_ws] by blast
      then show ?thesis using pa [OF more(3)] sc [OF more(1) u] wf by auto
    qed
  qed
qed

lemma json_loads_wf: "json_loads (PStr t) = Inr v \<Longrightarrow> unicode_text t \<Longrightarrow> json_rt_wf v"
proof -
  assume l: "json_loads (PStr t) = Inr v" and u: "unicode_text t"
  then obtain r where "scan_once (2 * length t + 1) (skip_ws t) = Inr (v, r)"
    by (auto simp: json_decode_def split: if_splits sum.splits prod.splits)
  moreover have "unicode_text (skip_ws t)" using unicode_text_suffix [OF suffix_skip_ws u] .
  ultimately show ?thesis using scan_wf [of "2 * length t + 1"] by blast
qed

lemma json_rt_wf_py_wf: "json_rt_wf v \<Longrightarrow> py_wf v"
  by (induction v rule: json_rt_wf.induct) auto

text \<open>
  C14. Type: every value \<open>json.loads\<close> returns on Unicode text is a well-formed
  Python object: its strings hold code points, its dicts have distinct keys and its
  floats are normalised.
\<close>

theorem json_loads_py_wf:
  assumes "unicode_text t" and "json_loads (PStr t) = Inr v"
  shows "py_wf v"
  using json_rt_wf_py_wf [OF json_loads_wf [OF assms(2,1)]] .

theorem json_loads_py_wf_witness:
  "unicode_text (ustr ''{\"a\": [1, 2.50, \"x'' @ [233] @ ustr ''\"], \"a\": null}'') \<and>
   json_loads (PStr (ustr ''{\"a\": [1, 2.50, \"x'' @ [233] @ ustr ''\"], \"a\": null}'')) = Inr (PDict [(ustr ''a'', PNone)]) \<and>
   py_wf (PDict [(ustr ''a'', PNone)])"
proof -
  have u: "unicode_text (ustr ''{\"a\": [1, 2.50, \"x'' @ [233] @ ustr ''\"], \"a\": null}'')" by code_simp
  have l: "json_loads (PStr (ustr ''{\"a\": [1, 2.50, \"x'' @ [233] @ ustr ''\"], \"a\": null}'')) = Inr (PDict [(ustr ''a'', PNone)])"
    by code_simp
  show ?thesis using json_loads_py_wf [OF u l] u l by simp
qed

subsection \<open>Round trip\<close>

text \<open>
  C13. \<open>json.loads(json.dumps(v)) == v\<close> for every value the encoder writes
  unambiguously: text without a split surrogate pair, normalised floats, objects
  with distinct keys, nested to any depth.
\<close>

theorem json_loads_json_dumps: "json_rt_wf v \<Longrightarrow> json_loads (PStr (json_dumps v)) = Inr v"
  unfolding json_dumps_def json_loads_ascii [OF json_encode_ascii] by (rule json_decode_json_encode)

theorem json_loads_json_dumps_witness:
  "json_rt_wf (PList [PFloat (FFinite True 15 (-1)), PDict [([0x1F600], PNone)], PStr [0xD800, 65]])
   \<and> json_loads (PStr (json_dumps (PList [PFloat (FFinite True 15 (-1)), PDict [([0x1F600], PNone)],
        PStr [0xD800, 65]])))
      = Inr (PList [PFloat (FFinite True 15 (-1)), PDict [([0x1F600], PNone)], PStr [0xD800, 65]])"
proof -
  have wf: "json_rt_wf (PList [PFloat (FFinite True 15 (-1)), PDict [([0x1F600], PNone)], PStr [0xD800, 65]])"
    by code_simp
  show ?thesis using json_loads_json_dumps [OF wf] wf by simp
qed

end
