(* ===== verification/Echo_Size.thy ===== *)
theory Echo_Size
  imports Send_Message
begin

text \<open>
  The size of the echo against the size of the frame. \<open>json.dumps\<close> at line 17
  writes every non-ASCII character as a \<open>\\uXXXX\<close> escape (\<open>ensure_ascii\<close>),
  six bytes where the frame carried the character in two to four, and the echo is
  posted whatever its size. A frame that is well within the service's 128 KiB
  message quota can therefore carry a message whose echo exceeds it, and then
  \<open>post_to_connection\<close> raises \<open>PayloadTooLargeException\<close> and the sender
  receives nothing. \<open>big_frame n\<close> is the frame \<open>{"message":"\<dots>"}\<close> holding
  \<open>n\<close> copies of U+00E9.

  The second limit is CPython's on the digits of an \<open>int\<close>: \<open>long_int_frame n\<close> is
  \<open>{"message": 10\<dots>0}\<close> with \<open>n\<close> zeros, valid JSON that \<open>json.loads\<close>
  refuses with \<open>ValueError\<close> from \<open>n = 4300\<close> on.
\<close>

definition big_frame :: "nat \<Rightarrow> ustr" where
  "big_frame n = ustr ''{\"message\":\"'' @ replicate n 233 @ ustr ''\"}''"

definition long_int_frame :: "nat \<Rightarrow> ustr" where
  "long_int_frame n = ustr ''{\"message\": 1'' @ replicate n 48 @ ustr ''}''"

subsection \<open>Decoding the frame, encoding the echo\<close>

lemma json_loads_big_frame:
  "json_loads (PStr (big_frame n)) = Inr (PDict [(ustr ''message'', PStr (replicate n 233))])"
proof -
  have "list_all (\<lambda>c. c \<noteq> QUOTE \<and> c \<noteq> BACKSLASH \<and> 0x1f < c) (replicate n (233::nat))"
    by (simp add: list_all_iff)
  note ss = scanstring_plain [OF this]
  have fuel: "2 * length (big_frame n) + 1 = Suc (Suc (Suc (2 * n + 26)))"
    by (simp add: big_frame_def)
  have ne: "big_frame n \<noteq> [] \<and> hd (big_frame n) \<noteq> 0xFEFF"
    by (simp add: big_frame_def)
  have so: "scan_once (Suc (Suc (Suc k))) (big_frame n) = Inr (PDict [(ustr ''message'', PStr (replicate n 233))], [])" for k
    by (simp add: big_frame_def ss expect_char_def skip_ws_def is_ws_def)
  have sw: "skip_ws (big_frame n) = big_frame n"
    by (simp add: big_frame_def skip_ws_def is_ws_def)
  show ?thesis
    unfolding json_loads.simps json_decode_def sw fuel so using ne by (simp add: skip_ws_def)
qed
lemma length_echo_big:
  "length (json_dumps (PDict [(ustr ''message'', PStr (replicate n 233))])) = 6 * n + 15"
  by (simp add: json_dumps_def encode_basestring_ascii_def escape_char_def s_char_def
      ascii_escape_unichar_def hex4_def length_concat sum_list_replicate)

lemma utf8_bytes_233: "utf8_bytes 233 = [0xC3, 0xA9]"
  by (simp add: utf8_bytes_def)

lemma utf8_encode_from_replicate:
  "utf8_encode_from i (replicate n 233) = Inr (concat (replicate n [0xC3, 0xA9]))"
  by (induction n arbitrary: i) (simp_all add: is_surrogate_def utf8_bytes_233 bind_exc_return)

lemma big_frame_utf8:
  "py_encode_utf8 (big_frame n) =
     Inr (map of_nat (ustr ''{\"message\":\"'') @ concat (replicate n [0xC3, 0xA9]) @ map of_nat (ustr ''\"}''))"
proof -
  have a: "is_ascii (ustr ''{\"message\":\"'')" "is_ascii (ustr ''\"}'')" by simp_all
  show ?thesis
    by (simp add: py_encode_utf8_def big_frame_def utf8_encode_from_append utf8_encode_from_replicate
        utf8_encode_from_ascii [OF a(1)] utf8_encode_from_ascii [OF a(2)] bind_exc_return del: ustr_Cons ustr_append)
qed

subsection \<open>Decoding a long integer\<close>

lemma json_loads_long_int_frame:
  assumes "int_max_str_digits \<le> n"
  shows "json_loads (PStr (long_int_frame n)) = Inl (ValueError (Int_max_str_digits (Suc n)))"
proof -
  have tw: "takeWhile is_digit (replicate n 48 @ [125]) = replicate n 48"
    "dropWhile is_digit (replicate n 48 @ [125]) = [125]"
    by (induction n) (simp_all add: is_digit_def)
  have so: "scan_once (Suc (Suc (Suc k))) (long_int_frame n) = Inl (Int_digits (Suc n))" for k
    using assms
    by (simp add: long_int_frame_def expect_char_def skip_ws_def is_ws_def match_number_def tw
        frac_part_def match_exponent_def is_digit_def Let_def)
  have fuel: "2 * length (long_int_frame n) + 1 = Suc (Suc (Suc (2 * n + 26)))"
    by (simp add: long_int_frame_def)
  have sw: "skip_ws (long_int_frame n) = long_int_frame n"
    by (simp add: long_int_frame_def skip_ws_def is_ws_def)
  have ne: "long_int_frame n \<noteq> [] \<and> hd (long_int_frame n) \<noteq> 0xFEFF"
    by (simp add: long_int_frame_def)
  show ?thesis
    unfolding json_loads.simps json_decode_def sw fuel so using ne by simp
qed

subsection \<open>The frame fits, the echo does not\<close>

text \<open>
  C7. From 21843 characters U+00E9 on, the frame \<open>big_frame n\<close> is at most 128 KiB of
  UTF-8 (up to 65529 characters), but its echo, 6 bytes per character plus 15, is
  larger than the quota: the handler raises \<open>ClientError\<close> with
  \<open>PayloadTooLargeException\<close> and the platform state is unchanged.
\<close>

theorem lambda_handler_echo_too_large:
  assumes "cid \<in> connections st" and "21843 \<le> n" and "n \<le> 65529"
  shows "(\<exists>bs. py_encode_utf8 (big_frame n) = Inr bs \<and> length bs \<le> max_payload) \<and>
    lambda_handler (ws_event st cid (Some (big_frame n))) st = (Inl (ClientError PayloadTooLargeException), st)"
  using assms length_echo_big [of n]
  by (simp add: big_frame_utf8 length_concat sum_list_replicate handler_simps json_loads_big_frame max_payload_def
      del: json_loads.simps)
theorem lambda_handler_echo_too_large_witness:
  "ustr ''c'' \<in> connections \<lparr>api_domain = [], api_stage = [], connections = {ustr ''c''}, issued = {ustr ''c''}, pushed = []\<rparr> \<and>
   21843 \<le> (21843::nat) \<and> (21843::nat) \<le> 65529 \<and>
   (\<exists>bs. py_encode_utf8 (big_frame 21843) = Inr bs \<and> length bs \<le> max_payload) \<and>
   lambda_handler (ws_event \<lparr>api_domain = [], api_stage = [], connections = {ustr ''c''}, issued = {ustr ''c''}, pushed = []\<rparr>
       (ustr ''c'') (Some (big_frame 21843)))
     \<lparr>api_domain = [], api_stage = [], connections = {ustr ''c''}, issued = {ustr ''c''}, pushed = []\<rparr> =
   (Inl (ClientError PayloadTooLargeException),
    \<lparr>api_domain = [], api_stage = [], connections = {ustr ''c''}, issued = {ustr ''c''}, pushed = []\<rparr>)"
  using lambda_handler_echo_too_large [of "ustr ''c''" "\<lparr>api_domain = [], api_stage = [], connections = {ustr ''c''}, issued = {ustr ''c''}, pushed = []\<rparr>" 21843]
  by simp

subsection \<open>An integer too long to convert\<close>

text \<open>
  C8. For every \<open>n \<ge> 4300\<close>, the body \<open>{"message": 10...0}\<close> whose message is a
  1 followed by \<open>n\<close> zeros, valid JSON with an integer of \<open>n + 1\<close> digits, makes
  \<open>json.loads\<close> at line 13 raise \<open>ValueError\<close> (from \<open>PyLong_FromString\<close>,
  reporting \<open>n + 1\<close> digits), which the handler propagates: nothing is delivered.
  This family stands for the digit limit; it is not a statement about every long
  integer literal.
\<close>

theorem lambda_handler_long_int:
  assumes "int_max_str_digits \<le> n"
  shows "lambda_handler (ws_event st cid (Some (long_int_frame n))) st =
    (Inl (ValueError (Int_max_str_digits (Suc n))), st)"
  using json_loads_long_int_frame [OF assms] by (simp add: lambda_handler_def del: json_loads.simps)

theorem lambda_handler_long_int_witness:
  "int_max_str_digits \<le> 4300 \<and>
   lambda_handler (ws_event \<lparr>api_domain = [], api_stage = [], connections = {ustr ''c''}, issued = {ustr ''c''}, pushed = []\<rparr>
       (ustr ''c'') (Some (long_int_frame 4300)))
     \<lparr>api_domain = [], api_stage = [], connections = {ustr ''c''}, issued = {ustr ''c''}, pushed = []\<rparr> =
   (Inl (ValueError (Int_max_str_digits 4301)),
    \<lparr>api_domain = [], api_stage = [], connections = {ustr ''c''}, issued = {ustr ''c''}, pushed = []\<rparr>)"
  using lambda_handler_long_int [of 4300 "\<lparr>api_domain = [], api_stage = [], connections = {ustr ''c''}, issued = {ustr ''c''}, pushed = []\<rparr>" "ustr ''c''"]
  by (simp add: int_max_str_digits_def)

end
