(* ===== verification/Json_Encode_Py.thy ===== *)
theory Json_Encode_Py
  imports Json_Encode
begin

unbundle bit_operations_syntax

text \<open>
  The pure-Python string encoder of \<open>Lib/json/encoder.py\<close>,
  \<open>py_encode_basestring_ascii\<close>, which \<open>json.dumps\<close> at line 17 of
  \<open>sendmessage.py\<close> uses when the C accelerator \<open>_json\<close> is not available:
  \<open>ESCAPE_ASCII.sub(replace, s)\<close> with the regular expression
  \<open>([\\"]|[^\ -~])\<close>, which matches one character at a time, the table
  \<open>ESCAPE_DCT\<close> filled by \<open>setdefault\<close> for the control characters, the
  \<open>'\\u{0:04x}'\<close> format, and surrogate pairs computed with \<open>|\<close>, \<open>&\<close> and \<open>>>\<close>
  on Python integers. \<open>py_encode_basestring_ascii_eq\<close> shows it equal to the C
  encoder's \<open>ascii_escape_unicode\<close> of \<open>Json_Encode\<close> on every string of code
  points, so the payload of line 17 does not depend on which encoder the runtime
  loads.
\<close>

text \<open>\<open>format(n, 'x')\<close>: lower-case hexadecimal digits, most significant first.\<close>

fun hex_lower :: "nat \<Rightarrow> ustr" where
  "hex_lower n = (if n < 16 then [hexdigit n] else hex_lower (n div 16) @ [hexdigit (n mod 16)])"

definition format_04x :: "nat \<Rightarrow> ustr" where
  "format_04x n = (let d = hex_lower n in replicate (4 - length d) 48 @ d)"

definition u_escape :: "nat \<Rightarrow> ustr" where
  "u_escape n = 92 # 117 # format_04x n"

definition escape_dct_base :: "(codepoint \<times> ustr) list" where
  "escape_dct_base = [(92, [92, 92]), (34, [92, 34]), (8, [92, 98]), (12, [92, 102]), (10, [92, 110]),
     (13, [92, 114]), (9, [92, 116])]"

definition setdefault_loop :: "(nat \<Rightarrow> ustr) \<Rightarrow> nat list \<Rightarrow> (codepoint \<times> ustr) list \<Rightarrow> (codepoint \<times> ustr) list" where
  "setdefault_loop f is d = fold (\<lambda>i d. if map_of d i = None then d @ [(i, f i)] else d) is d"

definition escape_dct :: "(codepoint \<times> ustr) list" where
  "escape_dct = setdefault_loop u_escape [0..<32] escape_dct_base"

definition escape_ascii_match :: "codepoint \<Rightarrow> bool" where
  "escape_ascii_match c \<longleftrightarrow> c = 92 \<or> c = 34 \<or> \<not> (32 \<le> c \<and> c \<le> 126)"

definition py_replace :: "codepoint \<Rightarrow> ustr" where
  "py_replace c =
     (case map_of escape_dct c of
        Some e \<Rightarrow> e
      | None \<Rightarrow>
          if c < 0x10000 then u_escape c
          else
            (let n = c - 0x10000;
                 s1 = 0xD800 OR (drop_bit 10 n AND 0x3FF);
                 s2 = 0xDC00 OR (n AND 0x3FF)
             in u_escape s1 @ u_escape s2))"

definition py_encode_basestring_ascii :: "ustr \<Rightarrow> ustr" where
  "py_encode_basestring_ascii s =
     [34] @ concat (map (\<lambda>c. if escape_ascii_match c then py_replace c else [c]) s) @ [34]"

subsection \<open>Equivalence with the C encoder\<close>

lemma or_d800: "x < 1024 \<Longrightarrow> (0xD800::nat) OR x = 0xD800 + x"
  using push_bit_or_low [of x 10 54] by (simp add: push_bit_eq_mult)

lemma or_dc00: "x < 1024 \<Longrightarrow> (0xDC00::nat) OR x = 0xDC00 + x"
  using push_bit_or_low [of x 10 55] by (simp add: push_bit_eq_mult)

lemma map_of_setdefault_loop:
  "map_of (setdefault_loop f is d) c =
     (case map_of d c of Some e \<Rightarrow> Some e | None \<Rightarrow> if c \<in> set is then Some (f c) else None)"
  unfolding setdefault_loop_def
  by (induction "is" arbitrary: d) (auto simp: map_of_append split: option.splits)

lemmas format_simps = format_04x_def hex4_def hexdigit_def replicate_numeral div_16_16

lemma format_04x_hex4: "n < 0x10000 \<Longrightarrow> format_04x n = hex4 n"
proof -
  assume n: "n < 0x10000"
  consider "n < 16" | "16 \<le> n" "n < 256" | "256 \<le> n" "n < 4096" | "4096 \<le> n"
    by linarith
  then show ?thesis
  proof cases
    case 1 then show ?thesis by (simp add: format_simps)
  next
    case 2
    then have "n div 16 < 16" by simp
    with 2 show ?thesis by (simp add: format_simps)
  next
    case 3
    then have "n div 16 div 16 < 16" "16 \<le> n div 16" by simp_all
    with 3 show ?thesis by (simp add: format_simps)
  next
    case 4
    then have "n div 16 div 16 div 16 < 16" "16 \<le> n div 16 div 16" "16 \<le> n div 16" using n by simp_all
    with 4 n show ?thesis by (simp add: format_simps)
  qed
qed

lemma escape_dct_lookup:
  "map_of escape_dct c = (if c < 32 \<or> c = 92 \<or> c = 34 then Some (ascii_escape_unichar c) else None)"
  by (auto simp: escape_dct_def map_of_setdefault_loop escape_dct_base_def u_escape_def format_04x_hex4
      ascii_escape_unichar_def)

lemma py_surrogates:
  assumes "0x10000 \<le> c" "c < 0x110000"
  shows "0xD800 OR (drop_bit 10 (c - 0x10000) AND 0x3FF) = high_surrogate c"
    and "0xDC00 OR ((c - 0x10000) AND 0x3FF) = low_surrogate c"
proof -
  have hi: "(c - 0x10000) div 1024 < 1024" using assms(2) by simp
  have "c div 1024 = 64 + (c - 0x10000) div 1024" using assms(1) by simp
  then show "0xD800 OR (drop_bit 10 (c - 0x10000) AND 0x3FF) = high_surrogate c"
    using hi by (simp add: drop_bit_eq_div and_1023 or_d800 high_surrogate_def)
  have "c = (c - 0x10000) + 64 * 1024" using assms(1) by simp
  then have "(c - 0x10000) mod 1024 = c mod 1024" by (metis mod_mult_self1)
  then show "0xDC00 OR ((c - 0x10000) AND 0x3FF) = low_surrogate c"
    by (simp add: and_1023 or_dc00 low_surrogate_def)
qed

lemma py_escape_char:
  assumes "c < 0x110000"
  shows "(if escape_ascii_match c then py_replace c else [c]) = escape_char c"
proof (cases "s_char c")
  case True
  then show ?thesis by (simp add: escape_ascii_match_def s_char_def escape_char_def)
next
  case False
  then have m: "escape_ascii_match c" by (auto simp: escape_ascii_match_def s_char_def)
  show ?thesis
  proof (cases "c < 32 \<or> c = 92 \<or> c = 34")
    case True
    then show ?thesis using m False by (simp add: py_replace_def escape_dct_lookup escape_char_def)
  next
    case other: False
    show ?thesis
    proof (cases "c < 0x10000")
      case True
      with other False m show ?thesis
        by (simp add: py_replace_def escape_dct_lookup escape_char_def u_escape_def format_04x_hex4
            ascii_escape_unichar_def)
    next
      case False
      have "high_surrogate c < 0x10000" "low_surrogate c < 0x10000"
        using assms by (simp_all add: high_surrogate_def low_surrogate_def)
      with False other m assms show ?thesis
        by (simp add: py_replace_def escape_dct_lookup escape_char_def u_escape_def format_04x_hex4
            ascii_escape_unichar_def py_surrogates Let_def s_char_def)
    qed
  qed
qed

text \<open>
  C9. Equivalence: on every string of code points, the pure-Python
  \<open>py_encode_basestring_ascii\<close> and the C \<open>ascii_escape_unicode\<close> write the same
  JSON string literal.
\<close>

theorem py_encode_basestring_ascii_eq:
  "valid_ustr s \<Longrightarrow> py_encode_basestring_ascii s = encode_basestring_ascii s"
  by (induction s) (simp_all add: py_encode_basestring_ascii_def encode_basestring_ascii_def py_escape_char)

theorem py_encode_basestring_ascii_eq_witness:
  "valid_ustr [0x1F600, 7, 34, 233, 97] \<and>
   py_encode_basestring_ascii [0x1F600, 7, 34, 233, 97] = encode_basestring_ascii [0x1F600, 7, 34, 233, 97]"
  using py_encode_basestring_ascii_eq [of "[0x1F600, 7, 34, 233, 97]"] by simp

end
