(* ===== verification/Spec2Isabelle.thy ===== *)
theory Spec2Isabelle
  imports Chat_System Json_Roundtrip Echo_Size Json_Encode_Py
begin

text \<open>
  A model of \<open>src/lambdas/sendmessage/sendmessage.py\<close>, the Lambda function behind
  the \<open>sendmessage\<close> route of an API Gateway WebSocket API: it reads the sender's
  connection and the API's endpoint from the event, decodes the text frame as JSON,
  and posts \<open>{"message": message}\<close> back to the sender through the API's management
  endpoint.

  \<^bold>\<open>Parts and theories.\<close>
  \<^item> \<open>Prelude\<close>: code points and strings (\<open>ustr\<close>, a \<open>str\<close> as a list of code
    points), bytes as \<open>8 word\<close> lists, and \<open>bind_exc\<close>, which propagates a raised
    exception (the \<open>Inl\<close> side of \<open>py_exc + 'a\<close>).
  \<^item> \<open>PyObject\<close>: the Python objects JSON decoding produces (\<open>pyval\<close>), the
    exceptions the handler can raise (\<open>py_exc\<close>), \<open>v[k]\<close> (\<open>py_getitem\<close>) and
    \<open>v.get(k, d)\<close> (\<open>py_dict_get\<close>).
  \<^item> \<open>Json_Encode\<close>: \<open>json.dumps\<close> with its defaults, as CPython's C encoder writes
    it, \<open>ensure_ascii\<close> escaping and float \<open>repr\<close> included (line 17).
  \<^item> \<open>Json_Decode\<close>: \<open>json.loads\<close> on a \<open>str\<close>, CPython 3.12's C scanner
    (\<open>scan_once\<close>, \<open>scanstring\<close>, \<open>match_number\<close>, \<open>parse_object\<close>,
    \<open>parse_array\<close>) with its error messages and positions (line 13).
  \<^item> \<open>Utf8\<close>: \<open>str.encode("utf-8")\<close> on \<open>32 word\<close> code units (line 17), and the
    strict UTF-8 decoder of the receiving client.
  \<^item> \<open>Py_Format\<close>: \<open>str()\<close> and \<open>repr()\<close> as the f-string at line 8 uses them.
  \<^item> \<open>Api_Gateway\<close>: the platform, from the spec: the API's state (\<open>api_state\<close>:
    open connections and the log of delivered payloads), \<open>PostToConnection\<close>
    (\<open>api_post\<close>), the boto3 client method (\<open>boto_post_to_connection\<close>), and the
    event the platform builds for a message (\<open>ws_event\<close>).
  \<^item> \<open>Send_Message\<close>: \<open>lambda_handler\<close>, one definition per line of the source,
    composed as the function runs them; the state passed through is the
    platform's, which only the call at lines 16 to 19 changes.
  \<^item> \<open>Json_Roundtrip\<close>: the decoder inverts the encoder, \<open>json.loads(json.dumps(v)) == v\<close>
    for every value without a split surrogate pair, with normalised floats and
    distinct keys (\<open>json_rt_wf\<close>), and every value the decoder returns on text without
    surrogates is of that kind; together they give the end-to-end echo below.
  \<^item> \<open>Json_Encode_Py\<close>: the pure-Python string encoder of \<open>json.encoder\<close>
    (\<open>py_encode_basestring_ascii\<close>: a regular-expression substitution, the
    \<open>ESCAPE_DCT\<close> table, the \<open>04x\<close> format, surrogate pairs by \<open>|\<close>, \<open>&\<close>,
    \<open>>>\<close>), which \<open>json.dumps\<close> falls back on without the C accelerator, and its
    equivalence with the C encoder of \<open>Json_Encode\<close>.
  \<^item> \<open>Echo_Size\<close>: the handler at the limits of its libraries and of the
    platform: a family of frames, \<open>big_frame n\<close>, within the 128 KiB quota whose
    echo is not, and bodies holding an integer too long for \<open>int\<close>, decoded and
    encoded symbolically for every \<open>n\<close>.
  \<^item> \<open>Chat_System\<close>: the system of spec sections 2 and 5, the platform receiving
    frames and running one invocation of \<open>lambda_handler\<close> per frame, in any order
    (\<open>chat_exec\<close>, the pending invocations a multiset); an abstract echo service
    (\<open>echo_step\<close>) it refines; its invariant, proved by rule induction on the
    reachable states (\<open>chat_reach\<close>): the delivery log is contained in the echoes
    of the frames handled so far, each on its own connection.

  \<^bold>\<open>What is proved.\<close> The handler's result and effect on every branch (a return
  delivers exactly one echo; every raise leaves the platform as it was), its errors
  on malformed, non-object and null bodies, on an integer of more than 4300 digits,
  on a closed connection and on an echo above the quota; the encoding of line 17
  being ASCII; the echo read back by the client being the message sent; that
  decoded values are well-formed objects; that the Python and C string encoders
  agree; and, for the system, refinement, the delivery invariant (every delivered
  payload is the echo of a frame its own connection sent, at most once), and that
  pending invocations always complete and then deliver every fitting echo exactly
  once when no connection closes, in whatever order the platform runs them.

  \<^bold>\<open>Fuel.\<close> The JSON scanner is a mutual recursion with a fuel argument; \<open>json_decode\<close>
  gives it \<open>2 * length s + 1\<close>, which is enough because every call either consumes
  input or is one of at most two calls per consumed character
  (\<open>Json_Decode.scan_enough_fuel\<close>); the fuel is an artifact of the model, so
  this lemma is a check on the model, not a property of the program.

  \<^bold>\<open>Not modelled.\<close> The Terraform configuration (infrastructure, no behaviour of
  the handler); the Lambda runtime's decoding of the invocation into \<open>event\<close>;
  botocore's signing machinery and the network: a post is either delivered or fails
  with \<open>GoneException\<close>, \<open>ForbiddenException\<close> or \<open>PayloadTooLargeException\<close>,
  and the other failures the spec names for a push (transport errors, throttling,
  botocore's retries) are not modelled, so no theorem here lists every exception
  the handler can raise; botocore's check of \<open>endpoint_url\<close> when the client is created at
  line 9 (\<open>is_valid_endpoint_url\<close>, which raises \<open>ValueError\<close> for a domain that
  is not a host name), because it rests on \<open>urllib.parse.urlsplit\<close> with its NFKC
  normalisation of non-ASCII network locations, \<open>ipaddress\<close> parsing of bracketed
  IPv6 hosts and \<open>str.lower\<close> over all of Unicode, none of which can be written
  out faithfully here; the domain API Gateway puts in the event is a valid host
  name, so the events of \<open>ws_event\<close> never reach that error; CPython's recursion limit on deeply nested JSON (the depth
  at which it strikes depends on the caller's stack); the digit limit of
  \<open>int.__repr__\<close> in \<open>json.dumps\<close>, which the handler cannot reach because
  \<open>json.loads\<close> already refuses integers of more than 4300 digits (that limit is
  modelled); binary64 rounding of floats with more than 15 significant digits; the payload quota is the one number \<open>max_payload\<close>, and
  throttling and Lambda concurrency limits are not modelled (an invocation in the
  system model either runs or stays pending).
\<close>

section \<open>An example platform\<close>

definition ex_st :: api_state where
  "ex_st =
     \<lparr>api_domain = ustr ''abc123.execute-api.us-east-1.amazonaws.com'', api_stage = ustr ''prod'',
      connections = {ustr ''conn-XYZ''}, issued = {ustr ''conn-XYZ''}, pushed = []\<rparr>"

section \<open>The handler\<close>

text \<open>
  C1. On the event the platform builds for a text frame from an open connection,
  whose JSON is an object and whose echo \<open>json.dumps({"message": m})\<close> fits the
  platform's payload quota \<^const>\<open>max_payload\<close> (a longer echo raises
  \<open>PayloadTooLargeException\<close> instead, see \<open>lambda_handler_echo_too_large\<close>), the
  handler returns \<open>{"statusCode": 200}\<close> and the platform has delivered exactly one
  payload, to that connection: the UTF-8 bytes of \<open>json.dumps({"message": m})\<close>,
  \<open>m\<close> the object's \<open>message\<close> or \<open>""\<close> when it has none.
\<close>

theorem lambda_handler_ws_event:
  assumes "cid \<in> connections st" and "json_loads (PStr t) = Inr (PDict d)"
    and "msg = (case map_of d (ustr ''message'') of None \<Rightarrow> PStr [] | Some m \<Rightarrow> m)"
    and "length (json_dumps (PDict [(ustr ''message'', msg)])) \<le> max_payload"
  shows "lambda_handler (ws_event st cid (Some t)) st =
    (Inr handler_response,
     st\<lparr>pushed := pushed st @ [(cid, map of_nat (json_dumps (PDict [(ustr ''message'', msg)])))]\<rparr>)"
  using assms by (simp add: handler_simps)

theorem lambda_handler_ws_event_witness:
  "lambda_handler (ws_event ex_st (ustr ''conn-XYZ'') (Some (ustr ''{\"message\":\"hello\"}''))) ex_st =
    (Inr handler_response,
     ex_st\<lparr>pushed := [(ustr ''conn-XYZ'', map of_nat (ustr ''{\"message\": \"hello\"}''))]\<rparr>)"
proof -
  have "json_loads (PStr (ustr ''{\"message\":\"hello\"}'')) = Inr (PDict [(ustr ''message'', PStr (ustr ''hello''))])"
    by code_simp
  moreover have "json_dumps (PDict [(ustr ''message'', PStr (ustr ''hello''))]) = ustr ''{\"message\": \"hello\"}''"
    by code_simp
  moreover have "ustr ''conn-XYZ'' \<in> connections ex_st" by (simp add: ex_st_def)
  ultimately show ?thesis
    using lambda_handler_ws_event [of "ustr ''conn-XYZ''" ex_st "ustr ''{\"message\":\"hello\"}''"
        "[(ustr ''message'', PStr (ustr ''hello''))]" "PStr (ustr ''hello'')"]
    by (simp add: max_payload_def ex_st_def)
qed

text \<open>
  C2. The echo is faithful: when the handler returns for a text frame \<open>t\<close> of
  Unicode text, the frame's JSON is an object, exactly one payload went to the
  sender, and the client decoding that payload (strict UTF-8, then
  \<open>json.loads\<close>) gets exactly \<open>{"message": m}\<close> with \<open>m\<close> the message it sent,
  whatever JSON value that is, non-ASCII text and escapes included.
\<close>

theorem echo_roundtrip:
  assumes "unicode_text t" and "lambda_handler (ws_event st cid (Some t)) st = (Inr r, st')"
  shows "\<exists>d data. json_loads (PStr t) = Inr (PDict d) \<and> pushed st' = pushed st @ [(cid, data)] \<and>
    map_option (\<lambda>txt. json_loads (PStr txt)) (utf8_decode data) =
      Some (Inr (PDict [(ustr ''message'', case map_of d (ustr ''message'') of None \<Rightarrow> PStr [] | Some m \<Rightarrow> m)]))"
proof -
  obtain body msg data where body: "json_loads (PStr t) = Inr body" and msg: "message_of body = Inr msg"
    and data: "outbound_data msg = Inr data" and post: "api_post (api_endpoint st) cid data st = Inr st'"
    using assms(2) by (auto simp: lambda_handler_Inr_iff api_endpoint_def)
  obtain d where d: "body = PDict d" using msg by (cases body) (simp_all add: message_of_def)
  define m where "m = (case map_of d (ustr ''message'') of None \<Rightarrow> PStr [] | Some m \<Rightarrow> m)"
  have "msg = m" using msg d by (simp add: message_of_dict m_def)
  have "json_rt_wf (PDict d)" using json_loads_wf [OF body assms(1)] d by simp
  then have "json_rt_wf m"
    by (auto simp: m_def split: option.splits dest: map_of_SomeD)
  then have wf: "json_rt_wf (PDict [(ustr ''message'', m)])"
    by (simp add: ustr_def valid_ustr_def is_high_surrogate_def is_low_surrogate_def)
  have loads: "json_loads (PStr (json_dumps (PDict [(ustr ''message'', m)]))) = Inr (PDict [(ustr ''message'', m)])"
    unfolding json_dumps_def json_loads_ascii [OF json_encode_ascii [of "PDict [(ustr ''message'', m)]"]]
    by (rule json_decode_json_encode [OF wf])
  have "data = map of_nat (json_dumps (PDict [(ustr ''message'', m)]))"
    using data \<open>msg = m\<close> by (simp add: outbound_data_Inr)
  moreover have "utf8_decode (map of_nat (json_dumps (PDict [(ustr ''message'', m)])))
      = Some (json_dumps (PDict [(ustr ''message'', m)]))"
    using json_encode_ascii by (simp add: utf8_decode_ascii json_dumps_def del: json_encode.simps)
  ultimately show ?thesis
    using post body d loads by (auto simp: api_post_Inr m_def simp del: json_loads.simps)
qed

theorem echo_roundtrip_witness:
  "\<exists>d data. json_loads (PStr (ustr ''{\"message\":\"h'' @ [233] @ ustr ''llo\"}'')) = Inr (PDict d) \<and>
     [(ustr ''conn-XYZ'', map of_nat (ustr ''{\"message\": \"h'' @ [92] @ ustr ''u00e9llo\"}''))] = [] @ [(ustr ''conn-XYZ'', data)] \<and>
     map_option (\<lambda>txt. json_loads (PStr txt)) (utf8_decode data) =
      Some (Inr (PDict [(ustr ''message'', case map_of d (ustr ''message'') of None \<Rightarrow> PStr [] | Some m \<Rightarrow> m)]))"
proof -
  have run: "lambda_handler (ws_event ex_st (ustr ''conn-XYZ'') (Some (ustr ''{\"message\":\"h'' @ [233] @ ustr ''llo\"}''))) ex_st =
    (Inr handler_response, ex_st\<lparr>pushed := [(ustr ''conn-XYZ'', map of_nat (ustr ''{\"message\": \"h'' @ [92] @ ustr ''u00e9llo\"}''))]\<rparr>)"
    by code_simp
  have "unicode_text (ustr ''{\"message\":\"h'' @ [233] @ ustr ''llo\"}'')" by code_simp
  from echo_roundtrip [OF this run] show ?thesis by (simp add: ex_st_def)
qed
text \<open>
  C3. Whatever the event, an invocation either raises and leaves the platform as it
  was, or returns \<open>{"statusCode": 200}\<close> after exactly one delivery, of a JSON
  \<open>{"message": ...}\<close> payload, to the connection named by
  \<open>event["requestContext"]["connectionId"]\<close>, which was open; nothing else of the
  platform changes.
\<close>

theorem lambda_handler_effect:
  assumes "lambda_handler event st = (r, st')"
  shows "(\<exists>e. r = Inl e) \<and> st' = st \<or>
    (\<exists>cid msg. r = Inr handler_response \<and> connection_id_of event = Inr (PStr cid) \<and>
       cid \<in> connections st \<and>
       st' = st\<lparr>pushed := pushed st @ [(cid, map of_nat (json_dumps (PDict [(ustr ''message'', msg)])))]\<rparr>)"
proof (cases r)
  case (Inl e)
  with assms lambda_handler_Inl show ?thesis by blast
next
  case (Inr v)
  with assms show ?thesis
    by (auto simp: lambda_handler_Inr_iff api_post_Inr outbound_data_Inr)
qed

theorem lambda_handler_effect_witness:
  "(\<exists>cid msg. connection_id_of (ws_event ex_st (ustr ''conn-XYZ'') None) = Inr (PStr cid) \<and>
     cid \<in> connections ex_st \<and>
     ex_st\<lparr>pushed := [(ustr ''conn-XYZ'', map of_nat (ustr ''{\"message\": \"\"}''))]\<rparr> =
       ex_st\<lparr>pushed := pushed ex_st @ [(cid, map of_nat (json_dumps (PDict [(ustr ''message'', msg)])))]\<rparr>)"
proof -
  have run: "lambda_handler (ws_event ex_st (ustr ''conn-XYZ'') None) ex_st =
    (Inr handler_response, ex_st\<lparr>pushed := [(ustr ''conn-XYZ'', map of_nat (ustr ''{\"message\": \"\"}''))]\<rparr>)"
    by code_simp
  show ?thesis
    using lambda_handler_effect [OF run] by simp
qed

text \<open>
  C6. The payload the handler builds at line 17 exists for every message: the UTF-8
  encoding never raises (the JSON text is ASCII, every non-ASCII character, lone
  surrogates included, written as an escape), every byte is below 0x80, there is one
  byte per character, and a client's strict UTF-8 decoding of the frame gives back
  exactly the JSON text \<open>json.dumps({"message": m})\<close>.
\<close>

theorem outbound_data_ascii:
  "\<exists>data. outbound_data m = Inr data \<and> list_all (\<lambda>b. b < 0x80) data \<and>
     length data = length (json_dumps (PDict [(ustr ''message'', m)])) \<and>
     utf8_decode data = Some (json_dumps (PDict [(ustr ''message'', m)]))"
  using json_encode_ascii [of "PDict [(ustr ''message'', m)]"]
  by (simp add: outbound_data_Inr ascii_bytes utf8_decode_ascii json_dumps_def del: json_encode.simps)

text \<open>
  C10. When the event has no body, or its body is \<open>{}\<close>, the effective message is
  \<open>""\<close> and the sender's connection receives exactly the bytes \<open>{"message": ""}\<close>.
\<close>

theorem lambda_handler_default_message:
  assumes "b = None \<or> b = Some (ustr ''{}'')" and "cid \<in> connections st"
  shows "lambda_handler (ws_event st cid b) st =
    (Inr handler_response, st\<lparr>pushed := pushed st @ [(cid, map of_nat (ustr ''{\"message\": \"\"}''))]\<rparr>)"
proof -
  have "json_loads (PStr (ustr ''{}'')) = Inr (PDict [])" by code_simp
  moreover have "json_dumps (PDict [(ustr ''message'', PStr [])]) = ustr ''{\"message\": \"\"}''" by code_simp
  ultimately show ?thesis using assms by (auto simp: handler_simps max_payload_def)
qed

theorem lambda_handler_default_message_witness:
  "lambda_handler (ws_event ex_st (ustr ''conn-XYZ'') (Some (ustr ''{}''))) ex_st =
    (Inr handler_response, ex_st\<lparr>pushed := [(ustr ''conn-XYZ'', map of_nat (ustr ''{\"message\": \"\"}''))]\<rparr>)"
  using lambda_handler_default_message [of "Some (ustr ''{}'')" "ustr ''conn-XYZ''" ex_st]
  by (simp add: ex_st_def)

text \<open>
  C11. Given the body \<open>not json\<close>, \<open>json.loads\<close> raises
  \<open>JSONDecodeError("Expecting value", ..., 0)\<close>, the handler propagates it, and
  nothing is delivered: the platform state is unchanged.
\<close>

theorem lambda_handler_not_json:
  "lambda_handler (ws_event st cid (Some (ustr ''not json''))) st = (Inl (JSONDecodeError Expecting_value 0), st)"
proof -
  have "json_loads (PStr (ustr ''not json'')) = Inl (JSONDecodeError Expecting_value 0)" by code_simp
  then show ?thesis by (simp add: handler_simps)
qed

text \<open>
  C12. When the sender's connection is no longer open, the post fails with
  \<open>GoneException\<close>, the handler propagates it, and nothing is delivered.
\<close>

theorem lambda_handler_gone:
  assumes "cid \<notin> connections st" and "json_loads (PStr t) = Inr (PDict d)"
  shows "lambda_handler (ws_event st cid (Some t)) st = (Inl (ClientError GoneException), st)"
  using assms by (simp add: handler_simps)

theorem lambda_handler_gone_witness:
  "lambda_handler (ws_event (api_disconnect (ustr ''conn-XYZ'') ex_st) (ustr ''conn-XYZ'') (Some (ustr ''{\"message\":\"hi\"}'')))
     (api_disconnect (ustr ''conn-XYZ'') ex_st) =
   (Inl (ClientError GoneException), api_disconnect (ustr ''conn-XYZ'') ex_st)"
proof -
  have "json_loads (PStr (ustr ''{\"message\":\"hi\"}'')) = Inr (PDict [(ustr ''message'', PStr (ustr ''hi''))])"
    by code_simp
  then show ?thesis
    using lambda_handler_gone [of "ustr ''conn-XYZ''" "api_disconnect (ustr ''conn-XYZ'') ex_st"]
    by (simp add: ex_st_def api_disconnect_def)
qed

text \<open>
  C17. A body that is valid JSON but not an object (an array, a string, a number,
  \<open>true\<close>, \<open>null\<close>) makes \<open>body.get\<close> at line 14 raise \<open>AttributeError\<close>; nothing
  is delivered.
\<close>

theorem lambda_handler_body_not_object:
  assumes "json_loads (PStr t) = Inr v" and "\<forall>d. v \<noteq> PDict d"
  shows "lambda_handler (ws_event st cid (Some t)) st = (Inl (AttributeError (py_type_name v) (ustr ''get'')), st)"
proof -
  have "message_of v = Inl (AttributeError (py_type_name v) (ustr ''get''))"
    using assms(2) by (cases v) (simp_all add: message_of_def)
  then show ?thesis using assms(1) by (simp add: handler_simps)
qed

theorem lambda_handler_body_not_object_witness:
  "lambda_handler (ws_event ex_st (ustr ''conn-XYZ'') (Some (ustr ''[\"hello\"]''))) ex_st =
    (Inl (AttributeError ''list'' (ustr ''get'')), ex_st)"
proof -
  have "json_loads (PStr (ustr ''[\"hello\"]'')) = Inr (PList [PStr (ustr ''hello'')])" by code_simp
  then show ?thesis
    using lambda_handler_body_not_object [of "ustr ''[\"hello\"]''" "PList [PStr (ustr ''hello'')]"]
    by simp
qed

text \<open>
  C18. An event whose \<open>body\<close> is present but \<open>None\<close> is not defaulted to \<open>"{}"\<close>
  by line 12: \<open>json.loads(None)\<close> raises \<open>TypeError\<close> and nothing is delivered.
\<close>

theorem lambda_handler_null_body:
  "lambda_handler
     (PDict [(ustr ''requestContext'',
              PDict [(ustr ''domainName'', PStr dn), (ustr ''stage'', PStr sg), (ustr ''connectionId'', PStr cid)]),
             (ustr ''body'', PNone)]) st =
   (Inl (TypeError (Json_input_type ''NoneType'')), st)"
  by (simp add: lambda_handler_def domain_name_of_def stage_of_def connection_id_of_def
      request_context_field_def body_str_of_def)

end
